theory Spec2Isabelle
  imports Main "HOL-Library.Sublist"
begin

section \<open>JavaScript values\<close>

text \<open>
  A JavaScript value that is a string or \<open>null\<close>/\<open>undefined\<close> is a \<open>string option\<close>.
  Strings are lists of characters; the patterns and parameter names of the trackers are
  ASCII, and \<open>length\<close> stands for the number of code units.
\<close>

definition truthy :: "string option \<Rightarrow> bool" where
  "truthy v = (case v of None \<Rightarrow> False | Some s \<Rightarrow> s \<noteq> [])"

text \<open>\<open>a || b\<close> on such values.\<close>

definition js_or :: "string option \<Rightarrow> string option \<Rightarrow> string option" where
  "js_or a b = (if truthy a then a else b)"

text \<open>A value inside a template literal or coerced by \<open>RegExp.test\<close>: \<open>null\<close> prints as text.\<close>

definition template :: "string option \<Rightarrow> string" where
  "template v = (case v of None \<Rightarrow> ''null'' | Some s \<Rightarrow> s)"

definition alnum :: string where
  "alnum = ''abcdefghijklmnopqrstuvwxyzABCDEFGHIJKLMNOPQRSTUVWXYZ0123456789''"

text \<open>
  \<open>s.toLowerCase()\<close> on the letters A to Z; every other character is kept. No character
  outside ASCII lower-cases to a letter that occurs in a parameter name of the trackers.
\<close>

definition toLowerCase :: "string \<Rightarrow> string" where
  "toLowerCase s =
     map (\<lambda>c. case map_of (zip ''ABCDEFGHIJKLMNOPQRSTUVWXYZ'' ''abcdefghijklmnopqrstuvwxyz'') c of
                 None \<Rightarrow> c | Some l \<Rightarrow> l) s"

text \<open>\<open>s.split(sep)\<close> for a one-character separator; the result is never empty.\<close>

fun js_split :: "char \<Rightarrow> string \<Rightarrow> string list" where
  "js_split sep [] = [[]]"
| "js_split sep (c # cs) =
     (if c = sep then [] # js_split sep cs
      else (case js_split sep cs of [] \<Rightarrow> [[c]] | p # ps \<Rightarrow> (c # p) # ps))"

text \<open>An element of an array destructuring: \<open>undefined\<close> past the end.\<close>

definition nth_opt :: "'a list \<Rightarrow> nat \<Rightarrow> 'a option" where
  "nth_opt xs i = (if i < length xs then Some (xs ! i) else None)"


text \<open>A call returns or throws; the state it leaves is there either way.\<close>

datatype 'a completion = Normal 'a | Thrown 'a

fun state_of :: "'a completion \<Rightarrow> 'a" where
  "state_of (Normal s) = s"
| "state_of (Thrown s) = s"

section \<open>Referral tracking\<close>

subsection \<open>Configuration and data\<close>

definition storageKey :: string where "storageKey = ''unilive_referral''"
definition cookieName :: string where "cookieName = ''unilive_ref''"
definition cookieDays :: nat where "cookieDays = 30"
definition defaultReferrer :: string where "defaultReferrer = ''alex''"
definition defaultCode :: string where "defaultCode = ''zyDK65''"

definition validParams :: "string list" where
  "validParams = [''ref'', ''code'', ''invite'', ''referrer'', ''from'', ''invitecode'', ''refcode'']"


datatype ref_source = Direct | UrlParam | SharedLink | Cookie

text \<open>The \<open>utm\<close> object; its keys \<open>source\<close>, \<open>medium\<close>, ... carry the prefix here.\<close>

record utm =
  utm_source :: "string option"
  utm_medium :: "string option"
  utm_campaign :: "string option"
  utm_term :: "string option"
  utm_content :: "string option"

record referral =
  referrer :: "string option"
  inviteCode :: "string option"
  source :: ref_source
  timestamp :: string
  landingPage :: "string option"
  utm :: utm

definition utm_nulls :: utm where
  "utm_nulls = \<lparr>utm_source = None, utm_medium = None, utm_campaign = None,
                 utm_term = None, utm_content = None\<rparr>"

text \<open>\<open>Object.values(u).some(v => v !== null)\<close>.\<close>

definition some_not_null :: "utm \<Rightarrow> bool" where
  "some_not_null u =
     (utm_source u \<noteq> None \<or> utm_medium u \<noteq> None \<or> utm_campaign u \<noteq> None \<or>
      utm_term u \<noteq> None \<or> utm_content u \<noteq> None)"

text \<open>The module's initial \<open>referralData\<close>; the build replaces referrer and invite code.\<close>

definition referralData0 :: "string \<Rightarrow> string \<Rightarrow> referral" where
  "referralData0 t href =
     \<lparr>referrer = Some ''user'', inviteCode = Some ''ITfssi'', source = Direct,
      timestamp = t, landingPage = Some href, utm = utm_nulls\<rparr>"

subsection \<open>Reading the URL\<close>

text \<open>
  The query string arrives as the pairs \<open>URLSearchParams\<close> iterates; \<open>getUrlParams\<close>
  stores each under its lower-cased key, a later pair replacing an earlier one.
\<close>

definition getUrlParams :: "(string \<times> string) list \<Rightarrow> (string \<rightharpoonup> string)" where
  "getUrlParams q = foldl (\<lambda>result (key, v). result(toLowerCase key \<mapsto> v)) Map.empty q"

definition isValidInviteCode :: "string \<Rightarrow> bool" where
  "isValidInviteCode code =
     (5 \<le> length code \<and> length code \<le> 8 \<and> list_all (\<lambda>c. c \<in> set alnum) code)"

definition isValidUsername :: "string \<Rightarrow> bool" where
  "isValidUsername username =
     (3 \<le> length username \<and> length username \<le> 20 \<and>
      list_all (\<lambda>c. c \<in> set alnum \<or> c = CHR ''_'') username)"

definition extractUTMParams :: "(string \<rightharpoonup> string) \<Rightarrow> utm" where
  "extractUTMParams params =
     \<lparr>utm_source = js_or (params ''utm_source'') None,
      utm_medium = js_or (params ''utm_medium'') None,
      utm_campaign = js_or (params ''utm_campaign'') None,
      utm_term = js_or (params ''utm_term'') None,
      utm_content = js_or (params ''utm_content'') None\<rparr>"

text \<open>
  One round of the \<open>for\<close> loop of \<open>extractReferralFromUrl\<close>, on the pair
  (referrer, inviteCode), and the loop over \<open>validParams\<close>.
\<close>

definition loop_body ::
  "(string \<rightharpoonup> string) \<Rightarrow> string option \<times> string option \<Rightarrow> string \<Rightarrow> string option \<times> string option"
where
  "loop_body params acc paramName =
     (if truthy (params paramName) then
        (let v = template (params paramName) in
         if isValidInviteCode v then (fst acc, Some v)
         else if isValidUsername v then (Some v, snd acc)
         else acc)
      else acc)"

definition extractReferralFromUrl_loop ::
  "(string \<rightharpoonup> string) \<Rightarrow> string option \<times> string option"
where
  "extractReferralFromUrl_loop params = foldl (loop_body params) (None, None) validParams"

record url_referral =
  url_referrer :: "string option"
  url_inviteCode :: "string option"
  url_source :: ref_source

definition extractReferralFromUrl :: "(string \<rightharpoonup> string) \<Rightarrow> url_referral" where
  "extractReferralFromUrl params =
     (let (referrer1, inviteCode1) = extractReferralFromUrl_loop params;
          referrer2 = (if truthy (params ''ref'') \<and> isValidUsername (template (params ''ref''))
                       then params ''ref'' else referrer1);
          inviteCode2 = (if truthy (params ''code'') \<and> isValidInviteCode (template (params ''code''))
                         then params ''code'' else inviteCode1)
      in if truthy (params ''from'') \<and> isValidUsername (template (params ''from''))
         then \<lparr>url_referrer = params ''from'', url_inviteCode = inviteCode2, url_source = SharedLink\<rparr>
         else \<lparr>url_referrer = referrer2, url_inviteCode = inviteCode2, url_source = UrlParam\<rparr>)"

subsection \<open>Persistence\<close>

text \<open>
  What a store holds under one key: nothing, text that \<open>JSON.parse\<close> rejects, or the
  text \<open>JSON.stringify\<close> wrote for a value, which parses back to that value.
\<close>

datatype 'a stored = Absent | Garbled | Json 'a

text \<open>
  The browser state the tracker touches: whether \<open>localStorage.setItem\<close> and
  \<open>localStorage.getItem\<close> succeed (each call sits in its own \<open>try\<close>), the item under
  \<open>storageKey\<close>, and the cookies \<open>unilive_ref\<close> and \<open>unilive_utm\<close> as \<open>getCookie\<close>
  decodes them. The expiry of a cookie is not part of the state.
\<close>

record env =
  ls_set_ok :: bool
  ls_get_ok :: bool
  ls_item :: "referral stored"
  cookie_ref :: "string option"
  cookie_utm :: "utm stored"

definition saveReferralData :: "referral \<Rightarrow> env \<Rightarrow> env" where
  "saveReferralData d e =
     (let e1 = (if ls_set_ok e then e\<lparr>ls_item := Json d\<rparr> else e);
          cookieData = template (referrer d) @ ''|'' @ template (inviteCode d);
          e2 = e1\<lparr>cookie_ref := Some cookieData\<rparr>
      in if some_not_null (utm d) then e2\<lparr>cookie_utm := Json (utm d)\<rparr> else e2)"

definition loadReferralData :: "string \<Rightarrow> env \<Rightarrow> referral option" where
  "loadReferralData now e =
     (case (if ls_get_ok e then ls_item e else Garbled) of
        Json d \<Rightarrow> Some d
      | _ \<Rightarrow>
        (let cookieData = cookie_ref e;
             utmData = (case cookie_utm e of Json u \<Rightarrow> Some u | _ \<Rightarrow> None)
         in if truthy cookieData then
              (let parts = js_split (CHR ''|'') (template cookieData)
               in Some \<lparr>referrer = js_or (nth_opt parts 0) (Some defaultReferrer),
                        inviteCode = js_or (nth_opt parts 1) (Some defaultCode),
                        source = Cookie,
                        timestamp = now,
                        landingPage = None,
                        utm = (case utmData of Some u \<Rightarrow> u | None \<Rightarrow> utm_nulls)\<rparr>)
            else None))"

subsection \<open>Resolution\<close>

text \<open>
  \<open>initReferralTracking\<close> up to the point where \<open>referralData\<close> is final: the query
  pairs, the browser state, the page's initial \<open>referralData\<close> and the two clock readings
  (in \<open>loadReferralData\<close> and in the URL branch) give the resolved data and the new state.
\<close>

definition initReferralTracking ::
  "(string \<times> string) list \<Rightarrow> env \<Rightarrow> referral \<Rightarrow> string \<Rightarrow> string \<Rightarrow> referral \<times> env"
where
  "initReferralTracking q e referralData t_load t_init =
     (let params = getUrlParams q;
          urlReferral = extractReferralFromUrl params;
          utmParams = extractUTMParams params;
          storedReferral = loadReferralData t_load e
      in if truthy (url_referrer urlReferral) \<or> truthy (url_inviteCode urlReferral) \<or>
            some_not_null utmParams
         then
           (let d = referralData\<lparr>
                  referrer := js_or (url_referrer urlReferral) (referrer referralData),
                  inviteCode := js_or (url_inviteCode urlReferral) (inviteCode referralData),
                  source := url_source urlReferral,
                  timestamp := t_init,
                  utm := utmParams\<rparr>
            in (d, saveReferralData d e))
         else
           (case storedReferral of
              Some st \<Rightarrow> (st, e)
            | None \<Rightarrow>
              (let d1 = (if referrer referralData = Some ''user'' \<or>
                            \<not> isValidUsername (template (referrer referralData))
                         then referralData\<lparr>referrer := Some defaultReferrer\<rparr>
                         else referralData);
                   d2 = (if inviteCode d1 = Some ''ITfssi'' \<or>
                            \<not> isValidInviteCode (template (inviteCode d1))
                         then d1\<lparr>inviteCode := Some defaultCode\<rparr>
                         else d1)
               in (d2, saveReferralData d2 e))))"

subsection \<open>Vocabulary of the statements about the generic pass\<close>

text \<open>
  The values the loop looks at, in the order of the parameter names given: the value of
  each name that is present with a non-empty value.
\<close>

definition present_values :: "(string \<rightharpoonup> string) \<Rightarrow> string list \<Rightarrow> string list" where
  "present_values params names =
     map (\<lambda>n. template (params n)) (filter (\<lambda>n. truthy (params n)) names)"

definition last_match :: "(string \<Rightarrow> bool) \<Rightarrow> string list \<Rightarrow> string option" where
  "last_match P vs = (case rev (filter P vs) of [] \<Rightarrow> None | v # _ \<Rightarrow> Some v)"

text \<open>
  The specification's reading of the pass, in its own words: the first value matching a
  pattern becomes the candidate of that role.
\<close>

definition first_match :: "(string \<Rightarrow> bool) \<Rightarrow> string list \<Rightarrow> string option" where
  "first_match P vs = (case filter P vs of [] \<Rightarrow> None | v # _ \<Rightarrow> Some v)"

subsection \<open>Vocabulary of the statements about resolution and persistence\<close>

text \<open>The condition of the first branch of \<open>initReferralTracking\<close>: the URL carries a signal.\<close>

definition url_signal :: "(string \<times> string) list \<Rightarrow> bool" where
  "url_signal q =
     (truthy (url_referrer (extractReferralFromUrl (getUrlParams q))) \<or>
      truthy (url_inviteCode (extractReferralFromUrl (getUrlParams q))) \<or>
      some_not_null (extractUTMParams (getUrlParams q)))"

text \<open>
  \<open>loadReferralData\<close> gets nothing from the primary store: reading throws, the item is
  missing, or it does not parse.
\<close>

definition primary_miss :: "env \<Rightarrow> bool" where
  "primary_miss e =
     (case (if ls_get_ok e then ls_item e else Garbled) of Json d \<Rightarrow> False | _ \<Rightarrow> True)"

text \<open>Browser states and referral data of the examples.\<close>

definition env0 :: env where
  "env0 = \<lparr>ls_set_ok = True, ls_get_ok = True, ls_item = Absent, cookie_ref = None,
           cookie_utm = Absent\<rparr>"

definition env_private :: env where
  "env_private =
     \<lparr>ls_set_ok = False, ls_get_ok = False, ls_item = Absent,
      cookie_ref = Some ''bob_22|ITfssi'',
      cookie_utm = Json (utm_nulls\<lparr>utm_source := Some ''news''\<rparr>)\<rparr>"

definition st_bob :: referral where
  "st_bob = \<lparr>referrer = Some ''bob_22'', inviteCode = Some ''abc123'', source = UrlParam,
      timestamp = ''t0'', landingPage = Some ''https://unilivehub.com/alex'', utm = utm_nulls\<rparr>"

definition st_carol :: referral where
  "st_carol = \<lparr>referrer = Some ''carol_9'', inviteCode = Some ''ITfssi'', source = UrlParam,
      timestamp = ''t0'', landingPage = Some ''https://unilivehub.com/alex'', utm = utm_nulls\<rparr>"

definition st_null :: referral where
  "st_null = \<lparr>referrer = None, inviteCode = Some ''zyDK65'', source = Direct,
      timestamp = ''t0'', landingPage = Some ''https://unilivehub.com/alex'', utm = utm_nulls\<rparr>"

subsection \<open>Rewriting the registration links\<close>




text \<open>
  An element of the page: whether it is an \<open>a\<close> element, its \<open>href\<close> attribute (empty
  where it has none), what \<open>new URL(href, origin)\<close> makes of that attribute (\<open>None\<close> where
  the constructor throws; else the host and the query pairs), and its \<open>onclick\<close>
  attribute. A rewrite replaces the query pairs; the new text of the attribute is
  \<open>url.toString()\<close> and is not spelled out.
\<close>

record url =
  url_host :: string
  searchParams :: "(string \<times> string) list"

record element =
  is_anchor :: bool
  href :: string
  parsed :: "url option"
  onclick :: "string option"





















section \<open>Milestones and their webhook\<close>

subsection \<open>Numbers\<close>

text \<open>
  Counts and thresholds are integers. A number inside a template literal prints in
  decimal; \<open>stats.x\<close> is a number or \<open>undefined\<close>.
\<close>

definition digit :: "nat \<Rightarrow> char" where
  "digit d = ''0123456789'' ! d"

function nat_str :: "nat \<Rightarrow> string" where
  "nat_str n = (if n < 10 then [digit n] else nat_str (n div 10) @ [digit (n mod 10)])"
  by pat_completeness auto
termination
  by (relation "measure (\<lambda>n. n)") auto

declare nat_str.simps [simp del]

definition number_str :: "int \<Rightarrow> string" where
  "number_str i = (if i < 0 then CHR ''-'' # nat_str (nat (- i)) else nat_str (nat i))"

definition num_truthy :: "int option \<Rightarrow> bool" where
  "num_truthy v = (case v of None \<Rightarrow> False | Some n \<Rightarrow> n \<noteq> 0)"

text \<open>\<open>v >= m\<close>, false when \<open>v\<close> is \<open>undefined\<close>.\<close>

definition num_ge :: "int option \<Rightarrow> int \<Rightarrow> bool" where
  "num_ge v m = (case v of None \<Rightarrow> False | Some n \<Rightarrow> m \<le> n)"

subsection \<open>Configuration and state\<close>

text \<open>The object \<open>getStats()\<close> returns: its numeric fields by name.\<close>

type_synonym stats = "(string \<times> int) list"

record webhook_config =
  enabled :: bool
  endpoint_milestone :: string
  pageOwner_username :: "string option"
  pageOwner_inviteCode :: "string option"

definition visitors_thresholds :: "int list" where
  "visitors_thresholds = [10, 50, 100, 500, 1000, 5000, 10000]"

definition registrations_thresholds :: "int list" where
  "registrations_thresholds = [1, 5, 10, 25, 50, 100, 500]"

definition referrals_thresholds :: "int list" where
  "referrals_thresholds = [5, 10, 25, 50, 100]"

definition MILESTONES :: "string \<Rightarrow> int list option" where
  "MILESTONES type =
     (if type = ''visitors'' then Some visitors_thresholds
      else if type = ''registrations'' then Some registrations_thresholds
      else if type = ''referrals'' then Some referrals_thresholds
      else None)"

text \<open>The interval of \<open>monitorMilestones\<close>, in milliseconds.\<close>

definition monitor_interval :: nat where
  "monitor_interval = 60000"

record milestone_payload =
  p_event :: string
  p_type :: string
  p_value :: int
  p_achieved_at :: nat
  p_owner_username :: string
  p_owner_invite_code :: string
  p_metadata :: stats

text \<open>
  The state of the webhook module: the object \<open>achievedMilestones\<close> (key to the date of
  the achievement; the date is the ISO text of a clock reading, never empty, so the test
  \<open>!achievedMilestones[key]\<close> asks whether the key is absent), whether
  \<open>localStorage.setItem\<close> succeeds, the copy under \<open>unilive_milestones\<close>, and the requests
  \<open>sendWebhook\<close> has issued to \<open>fetch\<close>, each once: the later attempts of a failed delivery
  repeat a request and are not listed.
\<close>

record webhooks =
  achievedMilestones :: "string \<rightharpoonup> nat"
  setItem_ok :: bool
  stored_milestones :: "string \<rightharpoonup> nat"
  requests :: "(string \<times> milestone_payload) list"

subsection \<open>The check and the monitor\<close>

definition sendWebhook ::
  "webhook_config \<Rightarrow> string \<Rightarrow> milestone_payload \<Rightarrow> webhooks \<Rightarrow> webhooks"
where
  "sendWebhook cfg endpoint payload s =
     (if \<not> enabled cfg \<or> endpoint = [] \<or> CHR ''%'' \<in> set endpoint then s
      else s\<lparr>requests := requests s @ [(endpoint, payload)]\<rparr>)"

definition milestoneKey :: "string \<Rightarrow> int \<Rightarrow> string" where
  "milestoneKey type v = type @ ''_'' @ number_str v"

text \<open>
  \<open>checkMilestone\<close> writes the key into the object first, then into \<open>localStorage\<close>, and
  calls \<open>sendWebhook\<close> last: where \<open>setItem\<close> throws, the key is set and nothing is sent.
\<close>

definition checkMilestone ::
  "webhook_config \<Rightarrow> string \<Rightarrow> int \<Rightarrow> stats \<Rightarrow> nat \<Rightarrow> webhooks \<Rightarrow> webhooks completion"
where
  "checkMilestone cfg type v metadata now s =
     (if achievedMilestones s (milestoneKey type v) = None \<and>
         (case MILESTONES type of None \<Rightarrow> False | Some ms \<Rightarrow> v \<in> set ms)
      then
        (let s1 = s\<lparr>achievedMilestones := (achievedMilestones s)(milestoneKey type v \<mapsto> now)\<rparr>
         in if \<not> setItem_ok s1 then Thrown s1
            else
              Normal (sendWebhook cfg (endpoint_milestone cfg)
                \<lparr>p_event = ''milestone_achieved'', p_type = type, p_value = v,
                 p_achieved_at = now,
                 p_owner_username = template (js_or (pageOwner_username cfg) (Some ''alex'')),
                 p_owner_invite_code = template (js_or (pageOwner_inviteCode cfg) (Some ''zyDK65'')),
                 p_metadata = metadata\<rparr>
                (s1\<lparr>stored_milestones := achievedMilestones s1\<rparr>)))
      else Normal s)"

text \<open>\<open>xs.forEach(f)\<close> on the state: a throw ends the loop.\<close>

fun forEach :: "('a \<Rightarrow> 's \<Rightarrow> 's completion) \<Rightarrow> 'a list \<Rightarrow> 's \<Rightarrow> 's completion" where
  "forEach f [] s = Normal s"
| "forEach f (x # xs) s =
     (case f x s of Normal s' \<Rightarrow> forEach f xs s' | Thrown s' \<Rightarrow> Thrown s')"

text \<open>
  One of the two blocks of the interval callback: \<open>if (stats.field)\<close>, then for each
  threshold of the type, \<open>if (stats.field >= milestone) checkMilestone(type, milestone, stats)\<close>.
\<close>

definition check_category ::
  "webhook_config \<Rightarrow> string \<Rightarrow> string \<Rightarrow> int list \<Rightarrow> stats \<Rightarrow> nat \<Rightarrow> webhooks \<Rightarrow> webhooks completion"
where
  "check_category cfg field type thresholds stats now s =
     (if num_truthy (map_of stats field) then
        forEach (\<lambda>milestone s'. if num_ge (map_of stats field) milestone
                                 then checkMilestone cfg type milestone stats now s'
                                 else Normal s') thresholds s
      else Normal s)"

text \<open>
  The interval callback of \<open>monitorMilestones\<close>. \<open>getStats\<close> is \<open>None\<close> where
  \<open>window.UniLiveAnalytics.getStats\<close> is missing; \<open>now\<close> is the clock of this tick.
\<close>

definition monitor_tick ::
  "webhook_config \<Rightarrow> stats option \<Rightarrow> nat \<Rightarrow> webhooks \<Rightarrow> webhooks completion"
where
  "monitor_tick cfg getStats now s =
     (case getStats of
        None \<Rightarrow> Normal s
      | Some stats \<Rightarrow>
          (case check_category cfg ''totalVisitors'' ''visitors'' visitors_thresholds stats now s of
             Thrown s1 \<Rightarrow> Thrown s1
           | Normal s1 \<Rightarrow>
               check_category cfg ''registrations'' ''registrations'' registrations_thresholds
                 stats now s1))"

text \<open>
  A run of the module: calls of the exported \<open>checkMilestone\<close> and ticks of the monitor, in
  any order. A throw ends the call that threw; the next event finds the state it left.
\<close>

datatype webhook_event = Check string int stats nat | Tick "stats option" nat

fun webhook_step :: "webhook_config \<Rightarrow> webhook_event \<Rightarrow> webhooks \<Rightarrow> webhooks" where
  "webhook_step cfg (Check type v metadata now) s =
     state_of (checkMilestone cfg type v metadata now s)"
| "webhook_step cfg (Tick getStats now) s = state_of (monitor_tick cfg getStats now s)"

definition webhook_run :: "webhook_config \<Rightarrow> webhook_event list \<Rightarrow> webhooks \<Rightarrow> webhooks" where
  "webhook_run cfg evs s = foldl (\<lambda>s ev. webhook_step cfg ev s) s evs"

subsection \<open>Vocabulary of the statements about milestones\<close>

text \<open>The key of a request, and how many requests of a key have been issued.\<close>

definition payload_key :: "milestone_payload \<Rightarrow> string" where
  "payload_key p = milestoneKey (p_type p) (p_value p)"

definition fired :: "string \<Rightarrow> webhooks \<Rightarrow> nat" where
  "fired k s = length (filter (\<lambda>r. payload_key (snd r) = k) (requests s))"

text \<open>Requests of a key so far, plus the one still possible while the key is absent.\<close>

definition budget :: "string \<Rightarrow> webhooks \<Rightarrow> nat" where
  "budget k s = fired k s + (if achievedMilestones s k = None then 1 else 0)"

definition keeps :: "string \<Rightarrow> webhooks \<Rightarrow> webhooks \<Rightarrow> bool" where
  "keeps k s s' =
     (budget k s' \<le> budget k s \<and>
      (case achievedMilestones s k of None \<Rightarrow> True
       | Some t \<Rightarrow> achievedMilestones s' k = Some t \<and> fired k s' = fired k s))"

text \<open>\<open>sendWebhook\<close> does not skip the milestone endpoint.\<close>

definition webhook_ready :: "webhook_config \<Rightarrow> bool" where
  "webhook_ready cfg =
     (enabled cfg \<and> endpoint_milestone cfg \<noteq> [] \<and> CHR ''%'' \<notin> set (endpoint_milestone cfg))"

definition quiet :: "webhooks \<Rightarrow> webhooks \<Rightarrow> bool" where
  "quiet s s' = (setItem_ok s' = setItem_ok s \<and> requests s' = requests s)"

definition untouched :: "string \<Rightarrow> webhooks \<Rightarrow> webhooks \<Rightarrow> bool" where
  "untouched k s s' =
     (achievedMilestones s' k = achievedMilestones s k \<and> fired k s' = fired k s)"

definition grows :: "webhook_config \<Rightarrow> webhooks \<Rightarrow> webhooks \<Rightarrow> bool" where
  "grows cfg s s' =
     (setItem_ok s' = setItem_ok s \<and>
      (\<forall>k. achievedMilestones s k \<noteq> None \<longrightarrow> achievedMilestones s' k \<noteq> None) \<and>
      (webhook_ready cfg \<longrightarrow> (\<forall>k. budget k s' = budget k s)))"

definition item_done :: "webhooks \<Rightarrow> string \<Rightarrow> int option \<Rightarrow> int \<Rightarrow> bool" where
  "item_done s type current m =
     (if num_ge current m then achievedMilestones s (milestoneKey type m) \<noteq> None else True)"

text \<open>Configuration, state and statistics of the examples.\<close>

definition cfg_ready :: webhook_config where
  "cfg_ready = \<lparr>enabled = True, endpoint_milestone = ''https://hooks.example.com/milestone'',
                pageOwner_username = Some ''alex'', pageOwner_inviteCode = Some ''zyDK65''\<rparr>"

definition fresh :: webhooks where
  "fresh = \<lparr>achievedMilestones = Map.empty, setItem_ok = True, stored_milestones = Map.empty,
            requests = []\<rparr>"

definition stats_small :: stats where
  "stats_small = [(''totalVisitors'', 10), (''registrations'', 1), (''referrals'', 5)]"

definition stats_100 :: stats where
  "stats_100 = [(''totalVisitors'', 100), (''registrations'', 0)]"

definition stats_105 :: stats where
  "stats_105 = [(''totalVisitors'', 105), (''registrations'', 0)]"

section \<open>The analytics tracker\<close>

subsection \<open>Requests, configuration and state\<close>

text \<open>
  What \<open>sendToBackend\<close> is given: the data of the page view, of the periodic update
  (time on page, clicks), of a click on a call-to-action (clicks), of a registration, of
  \<open>updateField\<close> (field, value) or of \<open>trackEvent\<close> (event type), and the flag
  \<open>isUpdate\<close>.
\<close>

datatype payload =
    PageViewData
  | TimeOnPageData nat nat
  | CtaClickedData nat
  | RegisteredData
  | FieldData string string
  | EventData string

type_synonym request = "payload \<times> bool"

text \<open>
  How a request ends: with a response whose \<open>id\<close> is the given value (\<open>None\<close> where the
  body is null or has no \<open>id\<close>), or with a rejection or a status that is not ok.
\<close>

datatype fetch_result = Succeeded "string option" | Failed

text \<open>
  What the tracker has done, in order: a request handed to \<open>fetch\<close>, a record id taken
  from the response to a request, a retry timer set with its delay, a retry timer run,
  and the beacon of the final update.
\<close>

datatype action =
    Fetch request
  | Captured request string
  | Scheduled int request
  | Retry request
  | Beacon payload

text \<open>
  \<open>endpoint_url\<close> is \<open>config.endpoints[config.backend].url\<close>, \<open>None\<close> where that
  endpoint is missing; \<open>options_maxRetries\<close> is \<open>options.maxRetries\<close> as configured.
\<close>

record tracker_config =
  backend :: string
  endpoint_url :: "string option"
  options_maxRetries :: int
  retryDelay :: int
  trackPageViews :: bool
  trackClicks :: bool
  trackTimeOnPage :: bool
  trackRegistrations :: bool

text \<open>
  The state: \<open>analyticsData.recordId\<close> and \<open>clicks\<close>, the current
  \<open>config.options.maxRetries\<close> (the retry callback writes to it), the requests awaiting
  their result, the retry timers set and not yet run, and the actions so far.
\<close>

record tracker =
  recordId :: "string option"
  clicks :: nat
  maxRetries :: int
  inflight :: "request list"
  timers :: "(int \<times> request) list"
  log :: "action list"

definition init :: "tracker_config \<Rightarrow> tracker" where
  "init cfg = \<lparr>recordId = None, clicks = 0, maxRetries = options_maxRetries cfg,
               inflight = [], timers = [], log = []\<rparr>"

definition backends :: "string list" where
  "backends = [''supabase'', ''nestjs'', ''laravel'', ''custom'']"

subsection \<open>Sending, settling and retrying\<close>

text \<open>
  \<open>sendToBackend\<close> up to its \<open>await\<close>: nothing happens where the endpoint is not
  configured or the backend is unknown, otherwise the request goes to \<open>fetch\<close>.
\<close>

definition sendToBackend :: "tracker_config \<Rightarrow> request \<Rightarrow> tracker \<Rightarrow> tracker" where
  "sendToBackend cfg req s =
     (if \<not> truthy (endpoint_url cfg) \<or> CHR ''%'' \<in> set (template (endpoint_url cfg)) then s
      else if backend cfg \<notin> set backends then s
      else s\<lparr>inflight := inflight s @ [req], log := log s @ [Fetch req]\<rparr>)"

definition remove_nth :: "nat \<Rightarrow> 'a list \<Rightarrow> 'a list" where
  "remove_nth i xs = take i xs @ drop (Suc i) xs"

text \<open>
  The rest of \<open>sendToBackend\<close>, when request \<open>i\<close> in flight ends. A response gives the
  record id if it has one and none is held yet (the Supabase adapter returns null for an
  update). A failure lands in the \<open>catch\<close>: if \<open>maxRetries\<close> is positive now, a timer
  is set with the delay \<open>retryDelay\<close>; nothing is thrown further.
\<close>

definition fetch_settled :: "tracker_config \<Rightarrow> nat \<Rightarrow> fetch_result \<Rightarrow> tracker \<Rightarrow> tracker" where
  "fetch_settled cfg i res s =
     (if i < length (inflight s) then
        (let req = inflight s ! i;
             s1 = s\<lparr>inflight := remove_nth i (inflight s)\<rparr>
         in case res of
              Succeeded rid \<Rightarrow>
                (let response_id = (if backend cfg = ''supabase'' \<and> snd req then None else rid)
                 in if truthy response_id \<and> \<not> truthy (recordId s1)
                    then s1\<lparr>recordId := response_id,
                            log := log s1 @ [Captured req (template response_id)]\<rparr>
                    else s1)
            | Failed \<Rightarrow>
                (if 0 < maxRetries s1
                 then s1\<lparr>timers := timers s1 @ [(retryDelay cfg, req)],
                         log := log s1 @ [Scheduled (retryDelay cfg) req]\<rparr>
                 else s1))
      else s)"

text \<open>The callback of retry timer \<open>i\<close>: \<open>maxRetries--\<close>, then \<open>sendToBackend\<close> again.\<close>

definition timer_fired :: "tracker_config \<Rightarrow> nat \<Rightarrow> tracker \<Rightarrow> tracker" where
  "timer_fired cfg i s =
     (if i < length (timers s) then
        (let req = snd (timers s ! i);
             s1 = s\<lparr>timers := remove_nth i (timers s), maxRetries := maxRetries s - 1,
                    log := log s @ [Retry req]\<rparr>
         in sendToBackend cfg req s1)
      else s)"

subsection \<open>The tracking functions\<close>

definition trackPageView :: "tracker_config \<Rightarrow> tracker \<Rightarrow> tracker" where
  "trackPageView cfg s =
     (if \<not> trackPageViews cfg then s else sendToBackend cfg (PageViewData, False) s)"

definition updateTimeOnPage :: "tracker_config \<Rightarrow> nat \<Rightarrow> tracker \<Rightarrow> tracker" where
  "updateTimeOnPage cfg timeOnPage s =
     (if \<not> truthy (recordId s) then s
      else sendToBackend cfg (TimeOnPageData timeOnPage (clicks s), True) s)"

definition trackClick :: "tracker_config \<Rightarrow> bool \<Rightarrow> tracker \<Rightarrow> tracker" where
  "trackClick cfg isCtaButton s =
     (if \<not> trackClicks cfg then s
      else (let s1 = s\<lparr>clicks := clicks s + 1\<rparr>
            in if isCtaButton \<and> truthy (recordId s1)
               then sendToBackend cfg (CtaClickedData (clicks s1), True) s1
               else s1))"

definition trackRegistration :: "tracker_config \<Rightarrow> tracker \<Rightarrow> tracker" where
  "trackRegistration cfg s =
     (if \<not> trackRegistrations cfg \<or> \<not> truthy (recordId s) then s
      else sendToBackend cfg (RegisteredData, True) s)"

text \<open>
  The final update leaves as a beacon, not through \<open>sendToBackend\<close>, where a record id
  is held and the endpoint exists; \<open>navigator.sendBeacon\<close> is taken to exist.
\<close>

definition sendFinalUpdate :: "tracker_config \<Rightarrow> nat \<Rightarrow> tracker \<Rightarrow> tracker" where
  "sendFinalUpdate cfg timeOnPage s =
     (if \<not> truthy (recordId s) then s
      else if endpoint_url cfg \<noteq> None
           then s\<lparr>log := log s @ [Beacon (TimeOnPageData timeOnPage (clicks s))]\<rparr>
           else s)"

definition trackEvent :: "tracker_config \<Rightarrow> string \<Rightarrow> tracker \<Rightarrow> tracker" where
  "trackEvent cfg eventType s = sendToBackend cfg (EventData eventType, False) s"

definition updateField :: "tracker_config \<Rightarrow> string \<Rightarrow> string \<Rightarrow> tracker \<Rightarrow> tracker" where
  "updateField cfg field v s =
     (if truthy (recordId s) then sendToBackend cfg (FieldData field v, True) s else s)"

subsection \<open>The page session\<close>

text \<open>
  What can happen, in any order: the page load, a tick of the time-on-page interval (with
  the seconds on the page), a click (on a call-to-action or not), a click on a
  registration link, the unload, calls of the exported \<open>trackEvent\<close> and
  \<open>updateField\<close>, the end of a request in flight, and the run of a retry timer.
\<close>

datatype event =
    PageLoad
  | Interval nat
  | Click bool
  | RegistrationClick
  | Unload nat
  | TrackEvent string
  | UpdateField string string
  | Settled nat fetch_result
  | TimerFired nat

fun step :: "tracker_config \<Rightarrow> event \<Rightarrow> tracker \<Rightarrow> tracker" where
  "step cfg PageLoad s = trackPageView cfg s"
| "step cfg (Interval t) s = updateTimeOnPage cfg t s"
| "step cfg (Click cta) s = trackClick cfg cta s"
| "step cfg RegistrationClick s = trackRegistration cfg s"
| "step cfg (Unload t) s = sendFinalUpdate cfg t s"
| "step cfg (TrackEvent e) s = trackEvent cfg e s"
| "step cfg (UpdateField f v) s = updateField cfg f v s"
| "step cfg (Settled i res) s = fetch_settled cfg i res s"
| "step cfg (TimerFired i) s = timer_fired cfg i s"

fun run :: "tracker_config \<Rightarrow> event list \<Rightarrow> tracker \<Rightarrow> tracker" where
  "run cfg [] s = s"
| "run cfg (ev # evs) s = run cfg evs (step cfg ev s)"

text \<open>The shipped options (three retries, one second), on a configured endpoint.\<close>

definition default_config :: tracker_config where
  "default_config = \<lparr>backend = ''nestjs'', endpoint_url = Some ''https://api.example.com'',
      options_maxRetries = 3, retryDelay = 1000, trackPageViews = True, trackClicks = True,
      trackTimeOnPage = True, trackRegistrations = True\<rparr>"

subsection \<open>Vocabulary of the statements about the tracker\<close>

text \<open>
  An update on the network: a request with \<open>isUpdate\<close>, or the beacon. A log holds a
  capture when it lists a record id taken from the response to a create request that was
  sent before.
\<close>

definition is_update :: "action \<Rightarrow> bool" where
  "is_update a = (case a of Fetch req \<Rightarrow> snd req | Beacon p \<Rightarrow> True | _ \<Rightarrow> False)"

definition captured_in :: "action list \<Rightarrow> bool" where
  "captured_in l =
     (\<exists>pre1 pre2 d rid. l = pre1 @ Captured (d, False) rid # pre2 \<and> Fetch (d, False) \<in> set pre1)"

definition ok_log :: "action list \<Rightarrow> bool" where
  "ok_log l = (\<forall>pre a post. l = pre @ a # post \<and> is_update a \<longrightarrow> captured_in pre)"

definition gate_inv :: "tracker \<Rightarrow> bool" where
  "gate_inv s =
     (ok_log (log s) \<and>
      (truthy (recordId s) \<longrightarrow> captured_in (log s)) \<and>
      (\<forall>req \<in> set (inflight s). (snd req \<longrightarrow> truthy (recordId s)) \<and> Fetch req \<in> set (log s)) \<and>
      (\<forall>t \<in> set (timers s). (snd (snd t) \<longrightarrow> truthy (recordId s)) \<and> Fetch (snd t) \<in> set (log s)))"

text \<open>The events that go through an update path.\<close>

definition is_update_event :: "event \<Rightarrow> bool" where
  "is_update_event ev =
     (case ev of Interval t \<Rightarrow> True | Click cta \<Rightarrow> True | RegistrationClick \<Rightarrow> True
      | Unload t \<Rightarrow> True | UpdateField f v \<Rightarrow> True | _ \<Rightarrow> False)"

text \<open>
  The retry timers run so far; the requests and timers pending; a run in which never
  more than one of them is pending.
\<close>

definition retries :: "tracker \<Rightarrow> nat" where
  "retries s = length (filter (\<lambda>a. case a of Retry r \<Rightarrow> True | _ \<Rightarrow> False) (log s))"

definition outstanding :: "tracker \<Rightarrow> nat" where
  "outstanding s = length (inflight s) + length (timers s)"

fun serial :: "tracker_config \<Rightarrow> event list \<Rightarrow> tracker \<Rightarrow> bool" where
  "serial cfg [] s = (outstanding s \<le> 1)"
| "serial cfg (ev # evs) s = (outstanding s \<le> 1 \<and> serial cfg evs (step cfg ev s))"

definition within_budget :: "tracker \<Rightarrow> bool" where
  "within_budget s = (0 \<le> maxRetries s \<and> (if timers s = [] then True else 0 < maxRetries s))"

text \<open>\<open>sendToBackend\<close> sends: the endpoint is configured and the backend known.\<close>

definition pipeline_ready :: "tracker_config \<Rightarrow> bool" where
  "pipeline_ready cfg =
     (truthy (endpoint_url cfg) \<and> CHR ''%'' \<notin> set (template (endpoint_url cfg)) \<and>
      backend cfg \<in> set backends)"

text \<open>
  One request of \<open>trackEvent\<close> that fails every time, with \<open>n\<close> rounds of failure and
  retry timer, and the failure of the last attempt.
\<close>

definition failing_chain :: "string \<Rightarrow> nat \<Rightarrow> event list" where
  "failing_chain e n =
     TrackEvent e # concat (replicate n [Settled 0 Failed, TimerFired 0]) @ [Settled 0 Failed]"

definition scheduled_delays :: "action list \<Rightarrow> int list" where
  "scheduled_delays l = concat (map (\<lambda>a. case a of Scheduled d r \<Rightarrow> [d] | _ \<Rightarrow> []) l)"

text \<open>
  The specification's backoff, in its own words: the first delay, doubling on each
  successive attempt.
\<close>

definition doubling_delays :: "int \<Rightarrow> nat \<Rightarrow> int list" where
  "doubling_delays first n = map (\<lambda>k. first * 2 ^ k) [0..<n]"

definition delays_fixed :: "tracker_config \<Rightarrow> tracker \<Rightarrow> bool" where
  "delays_fixed cfg s =
     list_all (\<lambda>a. case a of Scheduled d r \<Rightarrow> d = retryDelay cfg | _ \<Rightarrow> True) (log s)"

text \<open>Four requests sent together and failing together, then their four retry timers.\<close>

definition burst :: "event list" where
  "burst = [PageLoad, TrackEvent ''a'', TrackEvent ''b'', TrackEvent ''c'',
            Settled 0 Failed, Settled 0 Failed, Settled 0 Failed, Settled 0 Failed,
            TimerFired 0, TimerFired 0, TimerFired 0, TimerFired 0]"

text \<open>States of the examples: the page view sent, the page view failed once, and an update in flight with the counter at zero.\<close>

definition after_view_sent :: tracker where
  "after_view_sent = \<lparr>recordId = None, clicks = 0, maxRetries = 3,
      inflight = [(PageViewData, False)], timers = [], log = [Fetch (PageViewData, False)]\<rparr>"

definition after_view_failed :: tracker where
  "after_view_failed = \<lparr>recordId = None, clicks = 0, maxRetries = 3, inflight = [],
      timers = [(1000, (PageViewData, False))],
      log = [Fetch (PageViewData, False), Scheduled 1000 (PageViewData, False)]\<rparr>"

definition after_exhaustion :: tracker where
  "after_exhaustion = \<lparr>recordId = Some ''42'', clicks = 0, maxRetries = 0,
      inflight = [(RegisteredData, True)], timers = [], log = []\<rparr>"

section \<open>Verified properties\<close>

lemma js_split_nonempty: "js_split sep s \<noteq> []"
  by (induction s) (auto split: list.splits)

subsection \<open>The generic pass of the referral resolver\<close>

lemma last_match_snoc:
  "last_match P (vs @ [v]) = (if P v then Some v else last_match P vs)"
  by (simp add: last_match_def)

lemma present_values_snoc:
  "present_values params (names @ [n]) =
     (if truthy (params n) then present_values params names @ [template (params n)]
      else present_values params names)"
  by (simp add: present_values_def)

lemma loop_fold:
  "foldl (loop_body params) acc names =
     (case last_match (\<lambda>v. isValidUsername v \<and> \<not> isValidInviteCode v) (present_values params names) of
        None \<Rightarrow> fst acc | Some v \<Rightarrow> Some v,
      case last_match isValidInviteCode (present_values params names) of
        None \<Rightarrow> snd acc | Some v \<Rightarrow> Some v)"
proof (induction names rule: rev_induct)
  case Nil
  then show ?case by (simp add: last_match_def present_values_def)
next
  case (snoc n names)
  have "foldl (loop_body params) acc (names @ [n]) =
      loop_body params (foldl (loop_body params) acc names) n"
    by simp
  also have "\<dots> = loop_body params
      (case last_match (\<lambda>v. isValidUsername v \<and> \<not> isValidInviteCode v) (present_values params names) of
        None \<Rightarrow> fst acc | Some v \<Rightarrow> Some v,
      case last_match isValidInviteCode (present_values params names) of
        None \<Rightarrow> snd acc | Some v \<Rightarrow> Some v) n"
    by (simp only: snoc.IH)
  also have "\<dots> =
     (case last_match (\<lambda>v. isValidUsername v \<and> \<not> isValidInviteCode v) (present_values params (names @ [n])) of
        None \<Rightarrow> fst acc | Some v \<Rightarrow> Some v,
      case last_match isValidInviteCode (present_values params (names @ [n])) of
        None \<Rightarrow> snd acc | Some v \<Rightarrow> Some v)"
    by (simp add: present_values_snoc last_match_snoc loop_body_def Let_def)
  finally show ?case .
qed

text \<open>
  C1, as the code has it. In the loop over \<open>validParams\<close> every matching value is
  assigned, so a later parameter replaces what an earlier one set: the invite-code
  candidate is the last present value matching the invite-code pattern, and the referrer
  candidate is the last present value that matches the username pattern and does not
  match the invite-code pattern (the invite-code test comes first, and a value serves
  one role only).
\<close>

theorem generic_pass_last_match:
  "extractReferralFromUrl_loop params =
     (last_match (\<lambda>v. isValidUsername v \<and> \<not> isValidInviteCode v) (present_values params validParams),
      last_match isValidInviteCode (present_values params validParams))"
  by (simp add: extractReferralFromUrl_loop_def loop_fold last_match_def split: list.splits)

lemma params_invite_referrer:
  "getUrlParams [(''invite'', ''alice_1''), (''referrer'', ''bob_22'')] =
     [''invite'' \<mapsto> ''alice_1'', ''referrer'' \<mapsto> ''bob_22'']"
  by (simp add: getUrlParams_def toLowerCase_def)

text \<open>
  C1 as stated fails: for the query \<open>?invite=alice_1&referrer=bob_22\<close> both values match
  the username pattern only, \<open>invite\<close> comes before \<open>referrer\<close> in the list, and the pass
  ends with the referrer \<open>bob_22\<close>, not with the first match \<open>alice_1\<close>.
\<close>

theorem generic_pass_first_match_counterexample:
  "extractReferralFromUrl_loop (getUrlParams [(''invite'', ''alice_1''), (''referrer'', ''bob_22'')])
   \<noteq> (first_match isValidUsername
          (present_values (getUrlParams [(''invite'', ''alice_1''), (''referrer'', ''bob_22'')]) validParams),
        first_match isValidInviteCode
          (present_values (getUrlParams [(''invite'', ''alice_1''), (''referrer'', ''bob_22'')]) validParams))"
  by (simp add: params_invite_referrer extractReferralFromUrl_loop_def loop_body_def validParams_def
      truthy_def template_def isValidInviteCode_def isValidUsername_def alnum_def first_match_def
      present_values_def Let_def)

subsection \<open>Precedence of URL, persisted state and defaults\<close>

lemmas url_eval =
  url_signal_def getUrlParams_def toLowerCase_def extractReferralFromUrl_def
  extractReferralFromUrl_loop_def loop_body_def validParams_def truthy_def template_def
  isValidInviteCode_def isValidUsername_def alnum_def extractUTMParams_def some_not_null_def
  js_or_def Let_def

text \<open>
  C2. With a signal in the URL the resolved data are the page's initial \<open>referralData\<close>
  overwritten from the URL: referrer and invite code from the URL where found and the
  page's built-in values otherwise, source, timestamp and UTM from this page load; the
  browser state \<open>e\<close> does not occur in the result. Without a signal the result is what
  \<open>loadReferralData\<close> returns, and the stores are left as they are. With neither, referrer
  and invite code are the configured defaults where the page's built-in value is the
  unreplaced placeholder or malformed, and the built-in value otherwise.
\<close>

theorem resolution_precedence:
  "(url_signal q \<longrightarrow>
      fst (initReferralTracking q e rd t_load t_init) =
        rd\<lparr>referrer := js_or (url_referrer (extractReferralFromUrl (getUrlParams q))) (referrer rd),
           inviteCode := js_or (url_inviteCode (extractReferralFromUrl (getUrlParams q))) (inviteCode rd),
           source := url_source (extractReferralFromUrl (getUrlParams q)),
           timestamp := t_init,
           utm := extractUTMParams (getUrlParams q)\<rparr>) \<and>
   (\<not> url_signal q \<and> loadReferralData t_load e = Some st \<longrightarrow>
      initReferralTracking q e rd t_load t_init = (st, e)) \<and>
   (\<not> url_signal q \<and> loadReferralData t_load e = None \<longrightarrow>
      referrer (fst (initReferralTracking q e rd t_load t_init)) =
        (if referrer rd = Some ''user'' \<or> \<not> isValidUsername (template (referrer rd))
         then Some defaultReferrer else referrer rd) \<and>
      inviteCode (fst (initReferralTracking q e rd t_load t_init)) =
        (if inviteCode rd = Some ''ITfssi'' \<or> \<not> isValidInviteCode (template (inviteCode rd))
         then Some defaultCode else inviteCode rd))"
  by (simp add: initReferralTracking_def url_signal_def Let_def)

lemma signal_ref_utm: "url_signal [(''ref'', ''bob''), (''utm_source'', ''newsletter'')]"
  by (simp add: url_eval)

lemma no_signal_page: "\<not> url_signal [(''page'', ''2'')]"
  by (simp add: url_eval)

lemma extract_ref_utm:
  "extractReferralFromUrl (getUrlParams [(''ref'', ''bob''), (''utm_source'', ''newsletter'')]) =
     \<lparr>url_referrer = Some ''bob'', url_inviteCode = None, url_source = UrlParam\<rparr>"
  by (simp add: url_eval)

lemma utm_ref_utm:
  "extractUTMParams (getUrlParams [(''ref'', ''bob''), (''utm_source'', ''newsletter'')]) =
     utm_nulls\<lparr>utm_source := Some ''newsletter''\<rparr>"
  by (simp add: getUrlParams_def toLowerCase_def truthy_def extractUTMParams_def js_or_def
      utm_nulls_def)

text \<open>
  The three branches at concrete inputs: \<open>?ref=bob&utm_source=newsletter\<close> over a store
  holding another referrer, \<open>?page=2\<close> over that store, and \<open>?page=2\<close> over empty stores.
\<close>

theorem resolution_precedence_witness:
  "url_signal [(''ref'', ''bob''), (''utm_source'', ''newsletter'')] \<and>
   fst (initReferralTracking [(''ref'', ''bob''), (''utm_source'', ''newsletter'')]
          (env0\<lparr>ls_item := Json st_carol\<rparr>)
          (referralData0 ''t'' ''https://unilivehub.com/alex'') ''t1'' ''t2'') =
     \<lparr>referrer = Some ''bob'', inviteCode = Some ''ITfssi'', source = UrlParam,
      timestamp = ''t2'', landingPage = Some ''https://unilivehub.com/alex'',
      utm = utm_nulls\<lparr>utm_source := Some ''newsletter''\<rparr>\<rparr> \<and>
   \<not> url_signal [(''page'', ''2'')] \<and>
   loadReferralData ''t1'' (env0\<lparr>ls_item := Json st_carol\<rparr>) = Some st_carol \<and>
   initReferralTracking [(''page'', ''2'')] (env0\<lparr>ls_item := Json st_carol\<rparr>)
       (referralData0 ''t'' ''https://unilivehub.com/alex'') ''t1'' ''t2'' =
     (st_carol, env0\<lparr>ls_item := Json st_carol\<rparr>) \<and>
   loadReferralData ''t1'' env0 = None \<and>
   referrer (fst (initReferralTracking [(''page'', ''2'')] env0
       (referralData0 ''t'' ''https://unilivehub.com/alex'') ''t1'' ''t2'')) = Some ''alex'' \<and>
   inviteCode (fst (initReferralTracking [(''page'', ''2'')] env0
       (referralData0 ''t'' ''https://unilivehub.com/alex'') ''t1'' ''t2'')) = Some ''zyDK65''"
proof -
  have l1: "loadReferralData ''t1'' (env0\<lparr>ls_item := Json st_carol\<rparr>) = Some st_carol"
    by (simp add: loadReferralData_def env0_def)
  have l2: "loadReferralData ''t1'' env0 = None"
    by (simp add: loadReferralData_def env0_def truthy_def)
  show ?thesis
    using resolution_precedence [of "[(''ref'', ''bob''), (''utm_source'', ''newsletter'')]"
        "env0\<lparr>ls_item := Json st_carol\<rparr>" "referralData0 ''t'' ''https://unilivehub.com/alex''"
        "''t1''" "''t2''" st_carol]
      resolution_precedence [of "[(''page'', ''2'')]"
        "env0\<lparr>ls_item := Json st_carol\<rparr>" "referralData0 ''t'' ''https://unilivehub.com/alex''"
        "''t1''" "''t2''" st_carol]
      resolution_precedence [of "[(''page'', ''2'')]"
        env0 "referralData0 ''t'' ''https://unilivehub.com/alex''" "''t1''" "''t2''" st_carol]
    by (simp add: signal_ref_utm no_signal_page l1 l2 extract_ref_utm utm_ref_utm referralData0_def
        js_or_def truthy_def defaultReferrer_def defaultCode_def)
qed

subsection \<open>Saving and loading\<close>

lemma js_split_no_sep: "sep \<notin> set s \<Longrightarrow> js_split sep s = [s]"
  by (induction s) auto

lemma js_split_append: "sep \<notin> set a \<Longrightarrow> js_split sep (a @ sep # b) = a # js_split sep b"
  by (induction a) auto

lemma load_fallback:
  "primary_miss e \<Longrightarrow> loadReferralData t e =
       (if truthy (cookie_ref e) then
          Some \<lparr>referrer = js_or (nth_opt (js_split (CHR ''|'') (template (cookie_ref e))) 0)
                             (Some defaultReferrer),
                inviteCode = js_or (nth_opt (js_split (CHR ''|'') (template (cookie_ref e))) 1)
                               (Some defaultCode),
                source = Cookie, timestamp = t, landingPage = None,
                utm = (case cookie_utm e of Json u \<Rightarrow> u | _ \<Rightarrow> utm_nulls)\<rparr>
        else None)"
  by (auto simp: primary_miss_def loadReferralData_def Let_def split: stored.splits if_splits)

lemma save_cookie_ref:
  "cookie_ref (saveReferralData d e) =
     Some (template (referrer d) @ ''|'' @ template (inviteCode d))"
  by (simp add: saveReferralData_def Let_def)

lemma save_cookie_utm:
  "cookie_utm (saveReferralData d e) =
     (if some_not_null (utm d) then Json (utm d) else cookie_utm e)"
  by (simp add: saveReferralData_def Let_def)

lemma not_some_not_null: "\<not> some_not_null u \<Longrightarrow> u = utm_nulls"
  by (cases u) (simp add: some_not_null_def utm_nulls_def)

text \<open>
  C7, as the code has it. When the primary store takes the write and can be read, loading
  returns the saved state itself. When loading falls back to the cookies, referrer, invite
  code and UTM come back equal provided referrer and invite code are non-null, non-empty
  and free of the separator \<open>|\<close>, and either some UTM field of the state is non-null or no
  parseable UTM cookie was there before (an all-null UTM is not written to the cookie).
\<close>

theorem save_load_round_trip:
  "(ls_set_ok e \<and> ls_get_ok e \<longrightarrow> loadReferralData t (saveReferralData st e) = Some st) \<and>
   (primary_miss (saveReferralData st e) \<and>
    referrer st = Some r \<and> r \<noteq> [] \<and> CHR ''|'' \<notin> set r \<and>
    inviteCode st = Some c \<and> c \<noteq> [] \<and> CHR ''|'' \<notin> set c \<and>
    (some_not_null (utm st) \<or> cookie_utm e = Absent \<or> cookie_utm e = Garbled) \<longrightarrow>
    (\<exists>st'. loadReferralData t (saveReferralData st e) = Some st' \<and>
           referrer st' = referrer st \<and> inviteCode st' = inviteCode st \<and> utm st' = utm st))"
proof (intro conjI impI)
  assume "ls_set_ok e \<and> ls_get_ok e"
  then show "loadReferralData t (saveReferralData st e) = Some st"
    by (simp add: loadReferralData_def saveReferralData_def Let_def)
next
  assume a: "primary_miss (saveReferralData st e) \<and>
    referrer st = Some r \<and> r \<noteq> [] \<and> CHR ''|'' \<notin> set r \<and>
    inviteCode st = Some c \<and> c \<noteq> [] \<and> CHR ''|'' \<notin> set c \<and>
    (some_not_null (utm st) \<or> cookie_utm e = Absent \<or> cookie_utm e = Garbled)"
  have sp: "js_split (CHR ''|'') (r @ CHR ''|'' # c) = [r, c]"
    using a by (simp add: js_split_append js_split_no_sep)
  have u: "(case cookie_utm (saveReferralData st e) of Json u \<Rightarrow> u | _ \<Rightarrow> utm_nulls) = utm st"
    using a by (auto simp: save_cookie_utm dest: not_some_not_null)
  show "\<exists>st'. loadReferralData t (saveReferralData st e) = Some st' \<and>
           referrer st' = referrer st \<and> inviteCode st' = inviteCode st \<and> utm st' = utm st"
    using a u
    by (simp add: load_fallback save_cookie_ref template_def truthy_def sp nth_opt_def js_or_def)
qed

theorem save_load_round_trip_witness:
  "loadReferralData ''t1'' (saveReferralData st_bob env0) = Some st_bob \<and>
   primary_miss (saveReferralData st_bob (env0\<lparr>ls_set_ok := False, ls_get_ok := False\<rparr>)) \<and>
   (\<exists>st'. loadReferralData ''t1''
            (saveReferralData st_bob (env0\<lparr>ls_set_ok := False, ls_get_ok := False\<rparr>)) = Some st' \<and>
          referrer st' = Some ''bob_22'' \<and> inviteCode st' = Some ''abc123'' \<and> utm st' = utm_nulls)"
proof -
  have pm: "primary_miss (saveReferralData st_bob (env0\<lparr>ls_set_ok := False, ls_get_ok := False\<rparr>))"
    by (simp add: primary_miss_def saveReferralData_def env0_def Let_def)
  show ?thesis
    using save_load_round_trip [of env0 "''t1''" st_bob "''bob_22''" "''abc123''"]
      save_load_round_trip [of "env0\<lparr>ls_set_ok := False, ls_get_ok := False\<rparr>" "''t1''" st_bob
        "''bob_22''" "''abc123''"]
      pm
    by (simp add: env0_def st_bob_def)
qed

text \<open>
  The browser state \<open>env_private\<close> is what a visit to \<open>?ref=bob_22&utm_source=news\<close> leaves
  where \<open>localStorage\<close> throws, and \<open>st_carol\<close> is what a later visit to \<open>?ref=carol_9\<close>
  resolves and saves there.
\<close>

lemma env_private_reached:
  "snd (initReferralTracking [(''ref'', ''bob_22''), (''utm_source'', ''news'')]
          (env0\<lparr>ls_set_ok := False, ls_get_ok := False\<rparr>)
          (referralData0 ''t'' ''https://unilivehub.com/alex'') ''t1'' ''t0'') = env_private"
  by (simp add: initReferralTracking_def saveReferralData_def url_eval referralData0_def
      env0_def env_private_def utm_nulls_def)

lemma st_carol_reached:
  "initReferralTracking [(''ref'', ''carol_9'')] env_private
      (referralData0 ''t'' ''https://unilivehub.com/alex'') ''t1'' ''t0'' =
     (st_carol, saveReferralData st_carol env_private)"
  by (simp add: initReferralTracking_def url_eval referralData0_def st_carol_def utm_nulls_def)

text \<open>
  C7 as stated fails: saving \<open>st_carol\<close>, whose UTM fields are all null, leaves the older
  UTM cookie in place, and loading from the cookies returns that older UTM.
\<close>

theorem save_load_round_trip_counterexample:
  "map_option utm (loadReferralData ''t1'' (saveReferralData st_carol env_private))
   \<noteq> Some (utm st_carol)"
  by (simp add: loadReferralData_def saveReferralData_def st_carol_def env_private_def Let_def
      some_not_null_def utm_nulls_def truthy_def)

text \<open>
  C10. Saving a state whose referrer is null writes the cookie text \<open>null|\<close> followed by
  the invite code, and every load that finds this cookie and misses the primary store
  returns the referrer \<open>"null"\<close>, a string, which is neither null nor the default referrer.
\<close>

theorem null_referrer_cookie:
  "referrer st = None \<longrightarrow>
     cookie_ref (saveReferralData st e) = Some (''null|'' @ template (inviteCode st)) \<and>
     (\<forall>e' t. cookie_ref e' = cookie_ref (saveReferralData st e) \<and> primary_miss e' \<longrightarrow>
        (\<exists>st'. loadReferralData t e' = Some st' \<and> referrer st' = Some ''null'' \<and>
               referrer st' \<noteq> None \<and> referrer st' \<noteq> Some defaultReferrer))"
  by (simp add: load_fallback save_cookie_ref template_def truthy_def nth_opt_def js_or_def
      js_split_nonempty defaultReferrer_def split: list.splits)

theorem null_referrer_cookie_witness:
  "referrer st_null = None \<and>
   cookie_ref (saveReferralData st_null env_private) = Some ''null|zyDK65'' \<and>
   primary_miss (saveReferralData st_null env_private) \<and>
   (\<exists>st'. loadReferralData ''t1'' (saveReferralData st_null env_private) = Some st' \<and>
          referrer st' = Some ''null'')"
proof -
  have pm: "primary_miss (saveReferralData st_null env_private)"
    by (simp add: primary_miss_def saveReferralData_def env_private_def Let_def)
  have r: "referrer st_null = None"
    by (simp add: st_null_def)
  show ?thesis
    using null_referrer_cookie [of st_null env_private] pm r
    by (auto simp: st_null_def template_def)
qed

subsection \<open>The link rewriter\<close>















subsection \<open>Milestones: what a call leaves as it was\<close>

text \<open>
  A relation between the state before and after that is reflexive and transitive and
  holds across every \<open>checkMilestone\<close> holds across the loop, the block and the tick,
  whether they return or throw.
\<close>

lemma forEach_rel:
  assumes refl: "\<And>s. R s s" and trans: "\<And>a b c. R a b \<Longrightarrow> R b c \<Longrightarrow> R a c"
    and stable: "\<And>a b. P a \<Longrightarrow> R a b \<Longrightarrow> P b"
    and step: "\<And>x s. P s \<Longrightarrow> R s (state_of (f x s))"
    and init: "P s"
  shows "R s (state_of (forEach f xs s))"
  using init
proof (induction xs arbitrary: s)
  case Nil
  then show ?case by (simp add: refl)
next
  case (Cons x xs)
  have r: "R s (state_of (f x s))" using step Cons.prems by blast
  show ?case
  proof (cases "f x s")
    case (Normal s1)
    with r have r1: "R s s1" by simp
    then have "P s1" using stable Cons.prems by blast
    then have "R s1 (state_of (forEach f xs s1))" by (rule Cons.IH)
    with r1 have "R s (state_of (forEach f xs s1))" by (rule trans)
    with Normal show ?thesis by simp
  next
    case (Thrown s1)
    with r show ?thesis by simp
  qed
qed

lemma category_rel:
  assumes refl: "\<And>s. R s s" and trans: "\<And>a b c. R a b \<Longrightarrow> R b c \<Longrightarrow> R a c"
    and stable: "\<And>a b. P a \<Longrightarrow> R a b \<Longrightarrow> P b"
    and step: "\<And>v md now s. P s \<Longrightarrow> R s (state_of (checkMilestone cfg type v md now s))"
    and init: "P s"
  shows "R s (state_of (check_category cfg field type ths stats now s))"
proof (cases "num_truthy (map_of stats field)")
  case True
  have "R s (state_of (forEach (\<lambda>milestone s'. if num_ge (map_of stats field) milestone
                                 then checkMilestone cfg type milestone stats now s'
                                 else Normal s') ths s))"
  proof (rule forEach_rel [where P = P and R = R])
    show "\<And>x s. P s \<Longrightarrow> R s (state_of (if num_ge (map_of stats field) x
             then checkMilestone cfg type x stats now s else Normal s))"
      by (simp add: refl step)
  qed (use refl trans stable init in blast)+
  with True show ?thesis by (simp add: check_category_def)
next
  case False
  then show ?thesis by (simp add: check_category_def refl)
qed

lemma tick_rel:
  assumes refl: "\<And>s. R s s" and trans: "\<And>a b c. R a b \<Longrightarrow> R b c \<Longrightarrow> R a c"
    and stable: "\<And>a b. P a \<Longrightarrow> R a b \<Longrightarrow> P b"
    and step: "\<And>type v md now s. type = ''visitors'' \<or> type = ''registrations'' \<Longrightarrow> P s \<Longrightarrow>
                 R s (state_of (checkMilestone cfg type v md now s))"
    and init: "P s"
  shows "R s (state_of (monitor_tick cfg g now s))"
proof (cases g)
  case None
  then show ?thesis by (simp add: monitor_tick_def refl)
next
  case (Some stats)
  have c1: "R s (state_of (check_category cfg ''totalVisitors'' ''visitors'' visitors_thresholds stats now s))"
    by (rule category_rel [where P = P and R = R]) (use refl trans stable step init in blast)+
  show ?thesis
  proof (cases "check_category cfg ''totalVisitors'' ''visitors'' visitors_thresholds stats now s")
    case (Normal s1)
    with c1 have r1: "R s s1" by simp
    then have p1: "P s1" using stable init by blast
    have "R s1 (state_of (check_category cfg ''registrations'' ''registrations'' registrations_thresholds stats now s1))"
      by (rule category_rel [where P = P and R = R]) (use refl trans stable step p1 in blast)+
    with r1 have "R s (state_of (check_category cfg ''registrations'' ''registrations'' registrations_thresholds stats now s1))"
      by (rule trans)
    with Some Normal show ?thesis by (simp add: monitor_tick_def)
  next
    case (Thrown s1)
    with c1 Some show ?thesis by (simp add: monitor_tick_def)
  qed
qed

lemma check_budget: "budget k (state_of (checkMilestone cfg type v md now s)) \<le> budget k s"
  by (simp add: checkMilestone_def sendWebhook_def budget_def fired_def payload_key_def Let_def)

lemma check_keeps: "achievedMilestones s k = Some t \<Longrightarrow>
   achievedMilestones (state_of (checkMilestone cfg type v md now s)) k = Some t \<and>
   fired k (state_of (checkMilestone cfg type v md now s)) = fired k s"
  by (auto simp add: checkMilestone_def sendWebhook_def fired_def payload_key_def Let_def)

lemma keeps_refl: "keeps k s s"
  by (simp add: keeps_def split: option.splits)

lemma keeps_trans: "keeps k s s1 \<Longrightarrow> keeps k s1 s2 \<Longrightarrow> keeps k s s2"
  by (auto simp: keeps_def split: option.splits)

lemma keeps_check: "keeps k s (state_of (checkMilestone cfg type v md now s))"
  using check_budget [of k cfg type v md now s] check_keeps [of s k _ cfg type v md now]
  by (simp add: keeps_def split: option.splits)

lemma keeps_tick: "keeps k s (state_of (monitor_tick cfg g now s))"
proof (rule tick_rel [where P = "\<lambda>s. True" and R = "keeps k"])
  show "\<And>s. keeps k s s" by (rule keeps_refl)
  show "\<And>a b c. keeps k a b \<Longrightarrow> keeps k b c \<Longrightarrow> keeps k a c" by (rule keeps_trans)
  show "\<And>type v md now s. type = ''visitors'' \<or> type = ''registrations'' \<Longrightarrow> True \<Longrightarrow>
          keeps k s (state_of (checkMilestone cfg type v md now s))"
    by (rule keeps_check)
qed simp_all

lemma keeps_step: "keeps k s (webhook_step cfg ev s)"
  by (cases ev) (simp_all add: keeps_check keeps_tick)

lemma keeps_run: "keeps k s (webhook_run cfg evs s)"
proof (induction evs rule: rev_induct)
  case Nil
  then show ?case by (simp add: webhook_run_def keeps_refl)
next
  case (snoc ev evs)
  then show ?case
    using keeps_step [of k "webhook_run cfg evs s" cfg ev]
    by (simp add: webhook_run_def keeps_trans [of k s "foldl (\<lambda>s ev. webhook_step cfg ev s) s evs"])
qed

text \<open>Where \<open>setItem\<close> throws, no request is ever issued.\<close>

lemma quiet_check: "\<not> setItem_ok s \<Longrightarrow> quiet s (state_of (checkMilestone cfg type v md now s))"
  by (simp add: quiet_def checkMilestone_def Let_def)

lemma quiet_tick: "\<not> setItem_ok s \<Longrightarrow> quiet s (state_of (monitor_tick cfg g now s))"
proof (rule tick_rel [where P = "\<lambda>s. \<not> setItem_ok s" and R = quiet])
  show "\<And>s. quiet s s" by (simp add: quiet_def)
  show "\<And>a b c. quiet a b \<Longrightarrow> quiet b c \<Longrightarrow> quiet a c" by (simp add: quiet_def)
  show "\<And>a b. \<not> setItem_ok a \<Longrightarrow> quiet a b \<Longrightarrow> \<not> setItem_ok b" by (simp add: quiet_def)
  show "\<And>type v md now s. type = ''visitors'' \<or> type = ''registrations'' \<Longrightarrow> \<not> setItem_ok s \<Longrightarrow>
          quiet s (state_of (checkMilestone cfg type v md now s))"
    by (rule quiet_check)
qed

text \<open>A tick leaves the keys of the referral thresholds alone.\<close>

lemma untouched_check:
  "milestoneKey type v \<noteq> k \<Longrightarrow> untouched k s (state_of (checkMilestone cfg type v md now s))"
  by (simp add: untouched_def checkMilestone_def sendWebhook_def fired_def payload_key_def Let_def)

lemma referrals_key: "type = ''visitors'' \<or> type = ''registrations'' \<Longrightarrow> milestoneKey type v \<noteq> milestoneKey ''referrals'' m"
  by (auto simp: milestoneKey_def)

lemma untouched_tick:
  "untouched (milestoneKey ''referrals'' m) s (state_of (monitor_tick cfg g now s))"
proof (rule tick_rel [where P = "\<lambda>s. True" and R = "untouched (milestoneKey ''referrals'' m)"])
  show "\<And>s. untouched (milestoneKey ''referrals'' m) s s" by (simp add: untouched_def)
  show "\<And>a b c. untouched (milestoneKey ''referrals'' m) a b \<Longrightarrow>
          untouched (milestoneKey ''referrals'' m) b c \<Longrightarrow> untouched (milestoneKey ''referrals'' m) a c"
    by (simp add: untouched_def)
  show "\<And>type v md now s. type = ''visitors'' \<or> type = ''registrations'' \<Longrightarrow> True \<Longrightarrow>
          untouched (milestoneKey ''referrals'' m) s (state_of (checkMilestone cfg type v md now s))"
    by (rule untouched_check) (rule referrals_key)
qed simp_all

text \<open>
  Where \<open>setItem\<close> succeeds, every call returns, a key once present stays, and with a
  working endpoint each newly written key comes with exactly one request.
\<close>

lemma grows_refl: "grows cfg s s"
  by (simp add: grows_def)

lemma grows_trans: "grows cfg a b \<Longrightarrow> grows cfg b c \<Longrightarrow> grows cfg a c"
  by (simp add: grows_def)

lemma check_ok:
  "setItem_ok s \<Longrightarrow>
     \<exists>s'. checkMilestone cfg type v md now s = Normal s' \<and> grows cfg s s' \<and>
          ((case MILESTONES type of None \<Rightarrow> False | Some ms \<Rightarrow> v \<in> set ms) \<longrightarrow>
             achievedMilestones s' (milestoneKey type v) \<noteq> None)"
  by (auto simp: checkMilestone_def sendWebhook_def grows_def budget_def fired_def payload_key_def
      webhook_ready_def Let_def)

lemma item_done_grows: "item_done s type current m \<Longrightarrow> grows cfg s s' \<Longrightarrow> item_done s' type current m"
  by (simp add: item_done_def grows_def split: if_splits)

lemma forEach_ok:
  assumes ms: "MILESTONES type = Some ths" and sub: "set xs \<subseteq> set ths" and ok: "setItem_ok s"
  shows "\<exists>s'. forEach (\<lambda>milestone s'. if num_ge current milestone
                                 then checkMilestone cfg type milestone stats now s'
                                 else Normal s') xs s = Normal s' \<and>
              grows cfg s s' \<and> list_all (item_done s' type current) xs"
  using sub ok
proof (induction xs arbitrary: s)
  case Nil
  then show ?case by (simp add: grows_refl)
next
  case (Cons x xs)
  let ?f = "\<lambda>milestone s'. if num_ge current milestone
                                 then checkMilestone cfg type milestone stats now s'
                                 else Normal s'"
  have mem: "x \<in> set ths" using Cons.prems(1) by simp
  have "\<exists>s1. ?f x s = Normal s1 \<and> grows cfg s s1 \<and> item_done s1 type current x"
    using check_ok [OF Cons.prems(2), of cfg type x stats now] ms mem
    by (auto simp: item_done_def grows_refl)
  then obtain s1 where s1: "?f x s = Normal s1" "grows cfg s s1" "item_done s1 type current x"
    by blast
  have ok1: "setItem_ok s1" using s1(2) Cons.prems(2) by (simp add: grows_def)
  have "set xs \<subseteq> set ths" using Cons.prems(1) by simp
  from Cons.IH [OF this ok1] obtain s2 where
    s2: "forEach ?f xs s1 = Normal s2" "grows cfg s1 s2" "list_all (item_done s2 type current) xs"
    by blast
  have "forEach ?f (x # xs) s = Normal s2" using s1(1) s2(1) by simp
  moreover have "grows cfg s s2" using s1(2) s2(2) by (rule grows_trans)
  moreover have "item_done s2 type current x" using s1(3) s2(2) by (rule item_done_grows)
  ultimately show ?case using s2(3) by simp
qed

lemma not_truthy_done:
  "\<not> num_truthy current \<Longrightarrow> list_all (\<lambda>m. 0 < m) ths \<Longrightarrow> list_all (item_done s type current) ths"
  by (induction ths) (auto simp: item_done_def num_truthy_def num_ge_def split: option.splits)

lemma category_ok:
  assumes ms: "MILESTONES type = Some ths" and pos: "list_all (\<lambda>m. 0 < m) ths" and ok: "setItem_ok s"
  shows "\<exists>s'. check_category cfg field type ths stats now s = Normal s' \<and> grows cfg s s' \<and>
              list_all (item_done s' type (map_of stats field)) ths"
proof (cases "num_truthy (map_of stats field)")
  case True
  then show ?thesis
    using forEach_ok [OF ms subset_refl ok, of "map_of stats field" cfg stats now]
    by (simp add: check_category_def)
next
  case False
  then show ?thesis
    using not_truthy_done [OF False pos] by (simp add: check_category_def grows_refl)
qed

lemma forEach_noop:
  "list_all (item_done s type current) xs \<Longrightarrow>
     forEach (\<lambda>milestone s'. if num_ge current milestone
                                 then checkMilestone cfg type milestone stats now s'
                                 else Normal s') xs s = Normal s"
  by (induction xs) (auto simp: item_done_def checkMilestone_def split: if_splits)

lemma category_noop:
  "list_all (item_done s type (map_of stats field)) ths \<Longrightarrow>
     check_category cfg field type ths stats now s = Normal s"
  by (simp add: check_category_def forEach_noop)

lemma list_all_done_grows:
  "list_all (item_done s type current) ths \<Longrightarrow> grows cfg s s' \<Longrightarrow> list_all (item_done s' type current) ths"
  by (induction ths) (auto intro: item_done_grows)

lemma tick_ok:
  assumes ok: "setItem_ok s"
  shows "\<exists>s'. monitor_tick cfg (Some stats) now s = Normal s' \<and> grows cfg s s' \<and>
           list_all (item_done s' ''visitors'' (map_of stats ''totalVisitors'')) visitors_thresholds \<and>
           list_all (item_done s' ''registrations'' (map_of stats ''registrations'')) registrations_thresholds"
proof -
  have p1: "list_all (\<lambda>m. 0 < m) visitors_thresholds" by (simp add: visitors_thresholds_def)
  have p2: "list_all (\<lambda>m. 0 < m) registrations_thresholds" by (simp add: registrations_thresholds_def)
  have m1: "MILESTONES ''visitors'' = Some visitors_thresholds" by (simp add: MILESTONES_def)
  have m2: "MILESTONES ''registrations'' = Some registrations_thresholds" by (simp add: MILESTONES_def)
  from category_ok [OF m1 p1 ok, of cfg "''totalVisitors''" stats now] obtain s1 where
    s1: "check_category cfg ''totalVisitors'' ''visitors'' visitors_thresholds stats now s = Normal s1"
      "grows cfg s s1"
      "list_all (item_done s1 ''visitors'' (map_of stats ''totalVisitors'')) visitors_thresholds"
    by blast
  have ok1: "setItem_ok s1" using s1(2) ok by (simp add: grows_def)
  from category_ok [OF m2 p2 ok1, of cfg "''registrations''" stats now] obtain s2 where
    s2: "check_category cfg ''registrations'' ''registrations'' registrations_thresholds stats now s1 = Normal s2"
      "grows cfg s1 s2"
      "list_all (item_done s2 ''registrations'' (map_of stats ''registrations'')) registrations_thresholds"
    by blast
  have "monitor_tick cfg (Some stats) now s = Normal s2"
    using s1(1) s2(1) by (simp add: monitor_tick_def)
  moreover have "grows cfg s s2" using s1(2) s2(2) by (rule grows_trans)
  moreover have "list_all (item_done s2 ''visitors'' (map_of stats ''totalVisitors'')) visitors_thresholds"
    using s1(3) s2(2) by (rule list_all_done_grows)
  ultimately show ?thesis using s2(3) by blast
qed

lemma tick_twice:
  "requests (state_of (monitor_tick cfg g t2 (state_of (monitor_tick cfg g t1 s)))) =
   requests (state_of (monitor_tick cfg g t1 s))"
proof (cases g)
  case None
  then show ?thesis by (simp add: monitor_tick_def)
next
  case (Some stats)
  show ?thesis
  proof (cases "setItem_ok s")
    case True
    from tick_ok [OF True, of cfg stats t1] obtain s1 where
      s1: "monitor_tick cfg (Some stats) t1 s = Normal s1"
        "list_all (item_done s1 ''visitors'' (map_of stats ''totalVisitors'')) visitors_thresholds"
        "list_all (item_done s1 ''registrations'' (map_of stats ''registrations'')) registrations_thresholds"
      by blast
    have "monitor_tick cfg (Some stats) t2 s1 = Normal s1"
      using s1(2,3) by (simp add: monitor_tick_def category_noop)
    with s1(1) Some show ?thesis by simp
  next
    case False
    from quiet_tick [OF False, of cfg g t1] have "\<not> setItem_ok (state_of (monitor_tick cfg g t1 s))"
      using False by (simp add: quiet_def)
    from quiet_tick [OF this, of cfg g t2] show ?thesis by (simp add: quiet_def)
  qed
qed

subsection \<open>Milestones: the claims\<close>

text \<open>
  C5. Over any run of checks and monitor ticks, from any state, the requests of a key
  \<open>k\<close> grow by at most one, and by none when the key is already recorded; a recorded
  key keeps its date. Two ticks in succession with the same statistics: the second
  issues no request at all.
\<close>

theorem milestone_fires_at_most_once:
  "fired k (webhook_run cfg evs s) \<le> fired k s + (if achievedMilestones s k = None then 1 else 0) \<and>
   (achievedMilestones s k = Some t \<longrightarrow>
      achievedMilestones (webhook_run cfg evs s) k = Some t \<and>
      fired k (webhook_run cfg evs s) = fired k s) \<and>
   requests (state_of (monitor_tick cfg g t2 (state_of (monitor_tick cfg g t1 s)))) =
     requests (state_of (monitor_tick cfg g t1 s))"
proof -
  have "keeps k s (webhook_run cfg evs s)" by (rule keeps_run)
  then have "fired k (webhook_run cfg evs s) \<le> fired k s + (if achievedMilestones s k = None then 1 else 0) \<and>
   (achievedMilestones s k = Some t \<longrightarrow>
      achievedMilestones (webhook_run cfg evs s) k = Some t \<and>
      fired k (webhook_run cfg evs s) = fired k s)"
    by (auto simp: keeps_def budget_def split: if_splits)
  then show ?thesis by (simp add: tick_twice)
qed

text \<open>
  C6, as the code has it. A tick evaluates two categories, visitors (from
  \<open>stats.totalVisitors\<close>) and registrations (from \<open>stats.registrations\<close>). Where
  \<open>setItem\<close> succeeds and the milestone endpoint is configured, the tick returns, and for
  every threshold of these two categories that the current value reaches the key is
  recorded and exactly one request of that key exists if the key was absent before (none
  is added if it was present). The thresholds of the referrals category are not
  evaluated: whatever the statistics, a tick leaves their keys and requests as they were.
\<close>

theorem monitor_tick_fires:
  "webhook_ready cfg \<and> setItem_ok s \<longrightarrow>
     (\<exists>s'. monitor_tick cfg (Some stats) now s = Normal s' \<and>
        (\<forall>m. m \<in> set visitors_thresholds \<and> num_ge (map_of stats ''totalVisitors'') m \<longrightarrow>
           achievedMilestones s' (milestoneKey ''visitors'' m) \<noteq> None \<and>
           fired (milestoneKey ''visitors'' m) s' =
             fired (milestoneKey ''visitors'' m) s +
             (if achievedMilestones s (milestoneKey ''visitors'' m) = None then 1 else 0)) \<and>
        (\<forall>m. m \<in> set registrations_thresholds \<and> num_ge (map_of stats ''registrations'') m \<longrightarrow>
           achievedMilestones s' (milestoneKey ''registrations'' m) \<noteq> None \<and>
           fired (milestoneKey ''registrations'' m) s' =
             fired (milestoneKey ''registrations'' m) s +
             (if achievedMilestones s (milestoneKey ''registrations'' m) = None then 1 else 0)) \<and>
        (\<forall>m. achievedMilestones s' (milestoneKey ''referrals'' m) =
               achievedMilestones s (milestoneKey ''referrals'' m) \<and>
             fired (milestoneKey ''referrals'' m) s' = fired (milestoneKey ''referrals'' m) s))"
proof
  assume a: "webhook_ready cfg \<and> setItem_ok s"
  then have ok: "setItem_ok s" by simp
  from tick_ok [OF ok, of cfg stats now] obtain s' where
    s': "monitor_tick cfg (Some stats) now s = Normal s'" "grows cfg s s'"
      "list_all (item_done s' ''visitors'' (map_of stats ''totalVisitors'')) visitors_thresholds"
      "list_all (item_done s' ''registrations'' (map_of stats ''registrations'')) registrations_thresholds"
    by blast
  have b: "\<And>k. budget k s' = budget k s" using s'(2) a by (simp add: grows_def)
  have f: "fired k s' = fired k s + (if achievedMilestones s k = None then 1 else 0)"
    if "achievedMilestones s' k \<noteq> None" for k
    using b [of k] that by (simp add: budget_def)
  have v: "\<And>m. m \<in> set visitors_thresholds \<Longrightarrow> num_ge (map_of stats ''totalVisitors'') m \<Longrightarrow>
      achievedMilestones s' (milestoneKey ''visitors'' m) \<noteq> None"
    using s'(3) by (simp add: list_all_iff item_done_def)
  have r: "\<And>m. m \<in> set registrations_thresholds \<Longrightarrow> num_ge (map_of stats ''registrations'') m \<Longrightarrow>
      achievedMilestones s' (milestoneKey ''registrations'' m) \<noteq> None"
    using s'(4) by (simp add: list_all_iff item_done_def)
  have u: "\<And>m. untouched (milestoneKey ''referrals'' m) s s'"
    using untouched_tick [of _ s cfg "Some stats" now] s'(1) by simp
  show "\<exists>s'. monitor_tick cfg (Some stats) now s = Normal s' \<and>
        (\<forall>m. m \<in> set visitors_thresholds \<and> num_ge (map_of stats ''totalVisitors'') m \<longrightarrow>
           achievedMilestones s' (milestoneKey ''visitors'' m) \<noteq> None \<and>
           fired (milestoneKey ''visitors'' m) s' =
             fired (milestoneKey ''visitors'' m) s +
             (if achievedMilestones s (milestoneKey ''visitors'' m) = None then 1 else 0)) \<and>
        (\<forall>m. m \<in> set registrations_thresholds \<and> num_ge (map_of stats ''registrations'') m \<longrightarrow>
           achievedMilestones s' (milestoneKey ''registrations'' m) \<noteq> None \<and>
           fired (milestoneKey ''registrations'' m) s' =
             fired (milestoneKey ''registrations'' m) s +
             (if achievedMilestones s (milestoneKey ''registrations'' m) = None then 1 else 0)) \<and>
        (\<forall>m. achievedMilestones s' (milestoneKey ''referrals'' m) =
               achievedMilestones s (milestoneKey ''referrals'' m) \<and>
             fired (milestoneKey ''referrals'' m) s' = fired (milestoneKey ''referrals'' m) s)"
  proof (intro exI [of _ s'] conjI allI impI)
    show "monitor_tick cfg (Some stats) now s = Normal s'" by (rule s'(1))
  qed (use v r f u in \<open>auto simp: untouched_def\<close>)
qed

lemmas webhook_eval =
  monitor_tick_def check_category_def checkMilestone_def sendWebhook_def milestoneKey_def
  number_str_def nat_str.simps digit_def MILESTONES_def visitors_thresholds_def
  registrations_thresholds_def referrals_thresholds_def num_truthy_def num_ge_def Let_def
  js_or_def truthy_def template_def

lemma tick_small:
  "monitor_tick cfg_ready (Some stats_small) 7 fresh =
     Normal \<lparr>achievedMilestones = [''visitors_10'' \<mapsto> 7, ''registrations_1'' \<mapsto> 7], setItem_ok = True,
            stored_milestones = [''visitors_10'' \<mapsto> 7, ''registrations_1'' \<mapsto> 7],
            requests =
              [(''https://hooks.example.com/milestone'',
                \<lparr>p_event = ''milestone_achieved'', p_type = ''visitors'', p_value = 10,
                 p_achieved_at = 7, p_owner_username = ''alex'', p_owner_invite_code = ''zyDK65'',
                 p_metadata = stats_small\<rparr>),
               (''https://hooks.example.com/milestone'',
                \<lparr>p_event = ''milestone_achieved'', p_type = ''registrations'', p_value = 1,
                 p_achieved_at = 7, p_owner_username = ''alex'', p_owner_invite_code = ''zyDK65'',
                 p_metadata = stats_small\<rparr>)]\<rparr>"
  by (simp add: webhook_eval cfg_ready_def fresh_def stats_small_def)

text \<open>
  C6 as stated fails: with \<open>referrals: 5\<close> among the statistics the referral threshold 5
  is reached, yet after the tick its key is absent and no request of that key exists
  (the tick fires \<open>visitors_10\<close> and \<open>registrations_1\<close> only).
\<close>

theorem monitor_tick_referrals_counterexample:
  "5 \<in> set referrals_thresholds \<and> num_ge (map_of stats_small ''referrals'') 5 \<and>
   achievedMilestones (state_of (monitor_tick cfg_ready (Some stats_small) 7 fresh))
     (milestoneKey ''referrals'' 5) = None \<and>
   fired (milestoneKey ''referrals'' 5) (state_of (monitor_tick cfg_ready (Some stats_small) 7 fresh)) = 0"
  by (simp add: tick_small)
     (simp add: referrals_thresholds_def stats_small_def num_ge_def fired_def payload_key_def
        milestoneKey_def number_str_def nat_str.simps digit_def)

theorem monitor_tick_fires_witness:
  "webhook_ready cfg_ready \<and> setItem_ok fresh \<and>
   10 \<in> set visitors_thresholds \<and> num_ge (map_of stats_small ''totalVisitors'') 10 \<and>
   (\<exists>s'. monitor_tick cfg_ready (Some stats_small) 7 fresh = Normal s' \<and>
      achievedMilestones s' (milestoneKey ''visitors'' 10) \<noteq> None \<and>
      fired (milestoneKey ''visitors'' 10) s' = 1)"
proof -
  have h: "webhook_ready cfg_ready \<and> setItem_ok fresh"
    by (simp add: webhook_ready_def cfg_ready_def fresh_def)
  have m: "10 \<in> set visitors_thresholds \<and> num_ge (map_of stats_small ''totalVisitors'') 10"
    by (simp add: visitors_thresholds_def stats_small_def num_ge_def)
  have z: "fired (milestoneKey ''visitors'' 10) fresh = 0 \<and>
      achievedMilestones fresh (milestoneKey ''visitors'' 10) = None"
    by (simp add: fired_def fresh_def)
  show ?thesis
    using monitor_tick_fires [of cfg_ready fresh stats_small 7] h m z by auto
qed

text \<open>
  The visitor count reaches 100 and then 105: the second tick leaves the date of
  \<open>visitors_100\<close> and its single request as they were.
\<close>

lemma after_100:
  "achievedMilestones (webhook_run cfg_ready [Tick (Some stats_100) 7] fresh) ''visitors_100'' = Some 7 \<and>
   fired ''visitors_100'' (webhook_run cfg_ready [Tick (Some stats_100) 7] fresh) = 1"
  by (simp add: webhook_run_def webhook_eval cfg_ready_def fresh_def stats_100_def fired_def payload_key_def)

theorem milestone_fires_at_most_once_witness:
  "achievedMilestones (webhook_run cfg_ready [Tick (Some stats_100) 7] fresh) ''visitors_100'' = Some 7 \<and>
   achievedMilestones
     (webhook_run cfg_ready [Tick (Some stats_105) 8] (webhook_run cfg_ready [Tick (Some stats_100) 7] fresh))
     ''visitors_100'' = Some 7 \<and>
   fired ''visitors_100''
     (webhook_run cfg_ready [Tick (Some stats_105) 8] (webhook_run cfg_ready [Tick (Some stats_100) 7] fresh)) = 1"
  using milestone_fires_at_most_once [of "''visitors_100''" cfg_ready "[Tick (Some stats_105) 8]"
      "webhook_run cfg_ready [Tick (Some stats_100) 7] fresh" 7] after_100
  by simp

subsection \<open>The tracker: updates wait for the record id\<close>

lemma captured_in_append: "captured_in l \<Longrightarrow> captured_in (l @ l')"
  unfolding captured_in_def by (metis append.assoc append_Cons)

lemma ok_log_snoc:
  assumes "ok_log l" and "is_update a \<Longrightarrow> captured_in l"
  shows "ok_log (l @ [a])"
  unfolding ok_log_def
proof (intro allI impI)
  fix pre b post
  assume h: "l @ [a] = pre @ b # post \<and> is_update b"
  show "captured_in pre"
  proof (cases post rule: rev_cases)
    case Nil
    with h have "pre = l" "b = a" by auto
    with h assms(2) show ?thesis by simp
  next
    case (snoc post' x)
    with h have "l = pre @ b # post'" by auto
    with h assms(1) show ?thesis unfolding ok_log_def by blast
  qed
qed

lemma set_remove_nth: "set (remove_nth i xs) \<subseteq> set xs"
  by (auto simp: remove_nth_def dest: in_set_takeD in_set_dropD)

lemma gate_init: "gate_inv (init cfg)"
  by (simp add: gate_inv_def init_def ok_log_def truthy_def)

lemma gate_send:
  assumes "gate_inv s" and "snd req \<Longrightarrow> truthy (recordId s)"
  shows "gate_inv (sendToBackend cfg req s)"
proof (cases "sendToBackend cfg req s = s")
  case True
  with assms show ?thesis by simp
next
  case False
  then have e: "sendToBackend cfg req s = s\<lparr>inflight := inflight s @ [req], log := log s @ [Fetch req]\<rparr>"
    by (simp add: sendToBackend_def split: if_splits)
  have "ok_log (log s @ [Fetch req])"
    using assms by (intro ok_log_snoc) (auto simp: gate_inv_def is_update_def)
  then show ?thesis
    using assms unfolding e by (auto simp: gate_inv_def captured_in_append)
qed

lemma gate_settled: "gate_inv s \<Longrightarrow> gate_inv (fetch_settled cfg i res s)"
proof (cases "i < length (inflight s)")
  case False
  assume "gate_inv s"
  with False show ?thesis by (simp add: fetch_settled_def)
next
  case True
  assume g: "gate_inv s"
  define req where "req = inflight s ! i"
  define s1 where "s1 = s\<lparr>inflight := remove_nth i (inflight s)\<rparr>"
  have req_in: "req \<in> set (inflight s)" using True by (simp add: req_def)
  have g1: "gate_inv s1"
    using g set_remove_nth [of i "inflight s"] by (auto simp: gate_inv_def s1_def)
  have fetched: "Fetch req \<in> set (log s1)"
    using g req_in by (auto simp: gate_inv_def s1_def)
  have upd: "snd req \<Longrightarrow> truthy (recordId s1)"
    using g req_in by (auto simp: gate_inv_def s1_def)
  show ?thesis
  proof (cases res)
    case Failed
    have "gate_inv (s1\<lparr>timers := timers s1 @ [(retryDelay cfg, req)],
                       log := log s1 @ [Scheduled (retryDelay cfg) req]\<rparr>)"
      using g1 fetched upd
      by (auto simp: gate_inv_def captured_in_append is_update_def intro!: ok_log_snoc)
    with g1 Failed True show ?thesis
      by (simp add: fetch_settled_def Let_def req_def s1_def)
  next
    case (Succeeded rid)
    define response_id where "response_id = (if backend cfg = ''supabase'' \<and> snd req then None else rid)"
    show ?thesis
    proof (cases "truthy response_id \<and> \<not> truthy (recordId s1)")
      case False
      with g1 Succeeded True show ?thesis
        by (auto simp add: fetch_settled_def Let_def req_def s1_def response_id_def)
    next
      case c: True
      then have create: "\<not> snd req" using upd by blast
      then obtain d where d: "req = (d, False)" by (cases req) auto
      have cap: "captured_in (log s1 @ [Captured req (template response_id)])"
        unfolding captured_in_def using fetched d by (intro exI [of _ "log s1"] exI [of _ "[]"]) auto
      have "gate_inv (s1\<lparr>recordId := response_id,
                          log := log s1 @ [Captured req (template response_id)]\<rparr>)"
        using g1 c cap
        by (auto simp: gate_inv_def is_update_def intro!: ok_log_snoc)
      with c Succeeded True show ?thesis
        by (simp add: fetch_settled_def Let_def req_def s1_def response_id_def)
    qed
  qed
qed

lemma gate_timer: "gate_inv s \<Longrightarrow> gate_inv (timer_fired cfg i s)"
proof (cases "i < length (timers s)")
  case False
  assume "gate_inv s"
  with False show ?thesis by (simp add: timer_fired_def)
next
  case True
  assume g: "gate_inv s"
  define req where "req = snd (timers s ! i)"
  define s1 where "s1 = s\<lparr>timers := remove_nth i (timers s), maxRetries := maxRetries s - 1,
                    log := log s @ [Retry req]\<rparr>"
  have "timers s ! i \<in> set (timers s)" using True by simp
  then have upd: "snd req \<Longrightarrow> truthy (recordId s)"
    using g by (auto simp: gate_inv_def req_def)
  have "gate_inv s1"
    using g set_remove_nth [of i "timers s"]
    by (auto simp: gate_inv_def s1_def captured_in_append is_update_def intro!: ok_log_snoc)
  then have "gate_inv (sendToBackend cfg req s1)"
    using upd by (intro gate_send) (simp_all add: s1_def)
  with True show ?thesis by (simp add: timer_fired_def Let_def req_def s1_def)
qed

lemma gate_clicks: "gate_inv s \<Longrightarrow> gate_inv (s\<lparr>clicks := n\<rparr>)"
  by (simp add: gate_inv_def)

lemma gate_beacon:
  "gate_inv s \<Longrightarrow> truthy (recordId s) \<Longrightarrow> gate_inv (s\<lparr>log := log s @ [Beacon p]\<rparr>)"
  by (auto simp: gate_inv_def captured_in_append intro!: ok_log_snoc)

lemma gate_step: "gate_inv s \<Longrightarrow> gate_inv (step cfg ev s)"
proof (cases ev)
  case (Click cta)
  assume g: "gate_inv s"
  have "gate_inv (sendToBackend cfg (CtaClickedData (Suc (clicks s)), True) (s\<lparr>clicks := Suc (clicks s)\<rparr>))"
    if "truthy (recordId s)"
    using that g by (intro gate_send gate_clicks) simp_all
  with g Click show ?thesis by (auto simp: trackClick_def Let_def gate_clicks)
qed (auto simp: trackPageView_def updateTimeOnPage_def trackRegistration_def sendFinalUpdate_def
      trackEvent_def updateField_def gate_settled gate_timer gate_beacon intro: gate_send)

lemma gate_run: "gate_inv s \<Longrightarrow> gate_inv (run cfg evs s)"
  by (induction evs arbitrary: s) (simp_all add: gate_step)

text \<open>
  C4. In every page session, whatever the order of events, each update on the network
  (a request with \<open>isUpdate\<close>, or the final beacon) comes after the capture of a record
  id from the response to a create request sent before it. And in any state without a
  record id, an event of an update path (interval tick, click, registration click,
  unload, \<open>updateField\<close>) sends nothing, queues nothing and sets no timer.
\<close>

theorem updates_gated_on_recordId:
  "(log (run cfg evs (init cfg)) = pre @ a # post \<and> is_update a \<longrightarrow>
      (\<exists>pre1 pre2 d rid. pre = pre1 @ Captured (d, False) rid # pre2 \<and>
                         Fetch (d, False) \<in> set pre1)) \<and>
   (\<not> truthy (recordId s) \<and> is_update_event ev \<longrightarrow>
      log (step cfg ev s) = log s \<and> inflight (step cfg ev s) = inflight s \<and>
      timers (step cfg ev s) = timers s \<and> recordId (step cfg ev s) = recordId s)"
proof (rule conjI)
  show "log (run cfg evs (init cfg)) = pre @ a # post \<and> is_update a \<longrightarrow>
      (\<exists>pre1 pre2 d rid. pre = pre1 @ Captured (d, False) rid # pre2 \<and>
                         Fetch (d, False) \<in> set pre1)"
  proof (rule impI)
    assume h: "log (run cfg evs (init cfg)) = pre @ a # post \<and> is_update a"
    have "gate_inv (run cfg evs (init cfg))" by (intro gate_run gate_init)
    then have "ok_log (log (run cfg evs (init cfg)))" by (simp add: gate_inv_def)
    with h have "captured_in pre" unfolding ok_log_def by blast
    then show "\<exists>pre1 pre2 d rid. pre = pre1 @ Captured (d, False) rid # pre2 \<and>
                         Fetch (d, False) \<in> set pre1"
      by (simp add: captured_in_def)
  qed
  show "\<not> truthy (recordId s) \<and> is_update_event ev \<longrightarrow>
      log (step cfg ev s) = log s \<and> inflight (step cfg ev s) = inflight s \<and>
      timers (step cfg ev s) = timers s \<and> recordId (step cfg ev s) = recordId s"
    by (cases ev) (simp_all add: is_update_event_def updateTimeOnPage_def trackClick_def
        trackRegistration_def sendFinalUpdate_def updateField_def Let_def)
qed

lemmas tracker_eval =
  init_def sendToBackend_def fetch_settled_def timer_fired_def trackPageView_def
  updateTimeOnPage_def trackClick_def trackRegistration_def sendFinalUpdate_def trackEvent_def
  updateField_def remove_nth_def backends_def truthy_def template_def Let_def

lemma run_view_click:
  "log (run default_config [PageLoad, Settled 0 (Succeeded (Some ''42'')), Click True]
         (init default_config)) =
     [Fetch (PageViewData, False), Captured (PageViewData, False) ''42''] @
     Fetch (CtaClickedData 1, True) # []"
  by (simp add: tracker_eval default_config_def)

theorem updates_gated_on_recordId_witness:
  "log (run default_config [PageLoad, Settled 0 (Succeeded (Some ''42'')), Click True]
         (init default_config)) =
     [Fetch (PageViewData, False), Captured (PageViewData, False) ''42''] @
     Fetch (CtaClickedData 1, True) # [] \<and>
   is_update (Fetch (CtaClickedData 1, True)) \<and>
   (\<exists>pre1 pre2 d rid.
      [Fetch (PageViewData, False), Captured (PageViewData, False) ''42''] =
        pre1 @ Captured (d, False) rid # pre2 \<and> Fetch (d, False) \<in> set pre1) \<and>
   \<not> truthy (recordId (init default_config)) \<and> is_update_event (Interval 30) \<and>
   log (step default_config (Interval 30) (init default_config)) = [] \<and>
   inflight (step default_config (Interval 30) (init default_config)) = []"
proof -
  have u: "is_update (Fetch (CtaClickedData 1, True))" by (simp add: is_update_def)
  have n: "\<not> truthy (recordId (init default_config)) \<and> is_update_event (Interval 30)"
    by (simp add: init_def truthy_def is_update_event_def)
  have i: "log (init default_config) = [] \<and> inflight (init default_config) = []"
    by (simp add: init_def)
  show ?thesis
    using updates_gated_on_recordId [of default_config
        "[PageLoad, Settled 0 (Succeeded (Some ''42'')), Click True]"
        "[Fetch (PageViewData, False), Captured (PageViewData, False) ''42'']"
        "Fetch (CtaClickedData 1, True)" "[]" "init default_config" "Interval 30"]
      run_view_click u n i
    by simp
qed

subsection \<open>The tracker: one retry counter for all requests\<close>

lemma send_counter:
  "maxRetries (sendToBackend cfg req s) = maxRetries s \<and>
   retries (sendToBackend cfg req s) = retries s \<and>
   timers (sendToBackend cfg req s) = timers s"
  by (simp add: sendToBackend_def retries_def)

lemma step_counter:
  "maxRetries (step cfg ev s) + int (retries (step cfg ev s)) = maxRetries s + int (retries s)"
proof (cases ev)
  case (Settled i res)
  then show ?thesis
    by (cases res) (simp_all add: fetch_settled_def retries_def Let_def)
next
  case (TimerFired i)
  then show ?thesis
    by (simp add: timer_fired_def Let_def send_counter) (simp add: retries_def)
qed (simp_all add: trackPageView_def updateTimeOnPage_def trackClick_def trackRegistration_def
      sendFinalUpdate_def trackEvent_def updateField_def Let_def send_counter, simp_all add: retries_def)

lemma run_counter:
  "maxRetries (run cfg evs s) + int (retries (run cfg evs s)) = maxRetries s + int (retries s)"
  by (induction evs arbitrary: s) (simp_all add: step_counter)

lemma step_retries_mono: "retries s \<le> retries (step cfg ev s)"
proof (cases ev)
  case (Settled i res)
  then show ?thesis
    by (cases res) (simp_all add: fetch_settled_def retries_def Let_def)
next
  case (TimerFired i)
  then show ?thesis
    by (simp add: timer_fired_def Let_def send_counter) (simp add: retries_def)
qed (simp_all add: trackPageView_def updateTimeOnPage_def trackClick_def trackRegistration_def
      sendFinalUpdate_def trackEvent_def updateField_def Let_def send_counter, simp_all add: retries_def)

lemma step_decreasing: "maxRetries (step cfg ev s) \<le> maxRetries s"
  using step_counter [of cfg ev s] step_retries_mono [of s cfg ev] by linarith

lemma run_decreasing: "maxRetries (run cfg evs s) \<le> maxRetries s"
proof (induction evs arbitrary: s)
  case Nil
  then show ?case by simp
next
  case (Cons ev evs)
  have "maxRetries (run cfg evs (step cfg ev s)) \<le> maxRetries (step cfg ev s)" by (rule Cons.IH)
  also have "\<dots> \<le> maxRetries s" by (rule step_decreasing)
  finally show ?case by simp
qed

lemma failed_exhausted:
  "maxRetries s \<le> 0 \<Longrightarrow>
     timers (fetch_settled cfg i Failed s) = timers s \<and> log (fetch_settled cfg i Failed s) = log s"
  by (simp add: fetch_settled_def Let_def)

lemma step_exhausted:
  "maxRetries s \<le> 0 \<Longrightarrow> timers s = [] \<Longrightarrow>
     maxRetries (step cfg ev s) \<le> 0 \<and> timers (step cfg ev s) = [] \<and> retries (step cfg ev s) = retries s"
proof (cases ev)
  case (Settled i res)
  assume "maxRetries s \<le> 0" "timers s = []"
  with Settled show ?thesis
    by (cases res) (simp_all add: fetch_settled_def retries_def Let_def)
next
  case (TimerFired i)
  assume "maxRetries s \<le> 0" "timers s = []"
  with TimerFired show ?thesis by (simp add: timer_fired_def)
qed (simp_all add: trackPageView_def updateTimeOnPage_def trackClick_def trackRegistration_def
      sendFinalUpdate_def trackEvent_def updateField_def Let_def send_counter, simp_all add: retries_def)

lemma run_exhausted:
  "maxRetries s \<le> 0 \<Longrightarrow> timers s = [] \<Longrightarrow> retries (run cfg evs s) = retries s"
proof (induction evs arbitrary: s)
  case Nil
  then show ?case by simp
next
  case (Cons ev evs)
  from step_exhausted [OF Cons.prems, of cfg ev]
  have e: "maxRetries (step cfg ev s) \<le> 0" "timers (step cfg ev s) = []"
      "retries (step cfg ev s) = retries s"
    by simp_all
  from Cons.IH [OF e(1,2)] e(3) show ?case by simp
qed

lemma step_within:
  "within_budget s \<Longrightarrow> outstanding s \<le> 1 \<Longrightarrow> within_budget (step cfg ev s)"
proof (cases ev)
  case (Settled i res)
  assume a: "within_budget s" "outstanding s \<le> 1"
  show ?thesis
  proof (cases "i < length (inflight s)")
    case True
    with a(2) have "timers s = []" by (cases "timers s") (auto simp: outstanding_def)
    with a(1) True Settled show ?thesis
      by (cases res) (simp_all add: fetch_settled_def within_budget_def Let_def)
  next
    case False
    with a Settled show ?thesis by (simp add: fetch_settled_def)
  qed
next
  case (TimerFired i)
  assume a: "within_budget s" "outstanding s \<le> 1"
  show ?thesis
  proof (cases "i < length (timers s)")
    case True
    with a(2) have "remove_nth i (timers s) = []"
      by (cases "timers s") (auto simp: outstanding_def remove_nth_def)
    moreover have "0 < maxRetries s" using a(1) True by (auto simp: within_budget_def split: if_splits)
    ultimately show ?thesis using True TimerFired
      by (simp add: timer_fired_def Let_def within_budget_def send_counter)
  next
    case False
    with a TimerFired show ?thesis by (simp add: timer_fired_def)
  qed
qed (simp_all add: trackPageView_def updateTimeOnPage_def trackClick_def trackRegistration_def
      sendFinalUpdate_def trackEvent_def updateField_def Let_def within_budget_def send_counter)

lemma run_within:
  "within_budget s \<Longrightarrow> serial cfg evs s \<Longrightarrow> within_budget (run cfg evs s)"
proof (induction evs arbitrary: s)
  case Nil
  then show ?case by simp
next
  case (Cons ev evs)
  then have "within_budget (step cfg ev s)" by (simp add: step_within)
  with Cons show ?case by simp
qed

text \<open>
  C9, as the code has it. The counter \<open>config.options.maxRetries\<close> is shared by all
  requests: it always equals its configured value minus the retries run so far, whatever
  the requests; it never grows; a request that fails while it is not positive sets no
  timer; once it is not positive and no timer is pending, no retry ever runs again. The
  counter is read when a request fails and written when the timer runs, so the total of
  retries stays within the configured value where at most one request or timer is pending
  at a time.
\<close>

theorem shared_retry_counter:
  "maxRetries (run cfg evs (init cfg)) =
     options_maxRetries cfg - int (retries (run cfg evs (init cfg))) \<and>
   maxRetries (run cfg evs s) \<le> maxRetries s \<and>
   (maxRetries s \<le> 0 \<longrightarrow>
      timers (fetch_settled cfg i Failed s) = timers s \<and>
      log (fetch_settled cfg i Failed s) = log s) \<and>
   (maxRetries s \<le> 0 \<and> timers s = [] \<longrightarrow> retries (run cfg evs s) = retries s) \<and>
   (0 \<le> options_maxRetries cfg \<and> serial cfg evs (init cfg) \<longrightarrow>
      int (retries (run cfg evs (init cfg))) \<le> options_maxRetries cfg)"
proof -
  have a: "maxRetries (run cfg evs (init cfg)) =
     options_maxRetries cfg - int (retries (run cfg evs (init cfg)))"
    using run_counter [of cfg evs "init cfg"] by (simp add: init_def retries_def)
  have e: "int (retries (run cfg evs (init cfg))) \<le> options_maxRetries cfg"
    if "0 \<le> options_maxRetries cfg \<and> serial cfg evs (init cfg)"
  proof -
    have "within_budget (init cfg)" using that by (simp add: within_budget_def init_def)
    then have "within_budget (run cfg evs (init cfg))" using that by (simp add: run_within)
    then show ?thesis using a by (simp add: within_budget_def)
  qed
  show ?thesis
    using a e by (simp add: run_decreasing failed_exhausted run_exhausted)
qed

subsection \<open>The tracker: the retry delay\<close>

lemma send_delays: "delays_fixed cfg s \<Longrightarrow> delays_fixed cfg (sendToBackend cfg req s)"
  by (simp add: sendToBackend_def delays_fixed_def)

lemma step_delays: "delays_fixed cfg s \<Longrightarrow> delays_fixed cfg (step cfg ev s)"
proof (cases ev)
  case (Settled i res)
  assume "delays_fixed cfg s"
  with Settled show ?thesis
    by (cases res) (simp_all add: fetch_settled_def delays_fixed_def Let_def)
next
  case (TimerFired i)
  assume "delays_fixed cfg s"
  then have "delays_fixed cfg (s\<lparr>timers := remove_nth i (timers s), maxRetries := maxRetries s - 1,
                    log := log s @ [Retry (snd (timers s ! i))]\<rparr>)"
    by (simp add: delays_fixed_def)
  then show ?thesis using TimerFired \<open>delays_fixed cfg s\<close>
    by (simp add: timer_fired_def Let_def send_delays)
next
  case (Click cta)
  assume d: "delays_fixed cfg s"
  then have "delays_fixed cfg (s\<lparr>clicks := Suc (clicks s)\<rparr>)" by (simp add: delays_fixed_def)
  with d Click show ?thesis by (simp add: trackClick_def Let_def send_delays)
qed (simp_all add: trackPageView_def updateTimeOnPage_def trackRegistration_def
      sendFinalUpdate_def trackEvent_def updateField_def send_delays, simp_all add: delays_fixed_def)

lemma run_delays: "delays_fixed cfg s \<Longrightarrow> delays_fixed cfg (run cfg evs s)"
  by (induction evs arbitrary: s) (simp_all add: step_delays)

lemma chain_round:
  assumes "pipeline_ready cfg" and "inflight s = [r]" and "timers s = []" and "0 < maxRetries s"
  shows "step cfg (TimerFired 0) (step cfg (Settled 0 Failed) s) =
           s\<lparr>maxRetries := maxRetries s - 1,
             log := log s @ [Scheduled (retryDelay cfg) r, Retry r, Fetch r]\<rparr>"
  using assms
  by (cases s) (simp add: fetch_settled_def timer_fired_def sendToBackend_def pipeline_ready_def
      remove_nth_def Let_def)

lemma chain_tail:
  assumes "pipeline_ready cfg"
  shows "inflight s = [r] \<Longrightarrow> timers s = [] \<Longrightarrow> maxRetries s = int n \<Longrightarrow>
     run cfg (concat (replicate n [Settled 0 Failed, TimerFired 0]) @ [Settled 0 Failed]) s =
       s\<lparr>inflight := [], maxRetries := 0,
         log := log s @ concat (replicate n [Scheduled (retryDelay cfg) r, Retry r, Fetch r])\<rparr>"
proof (induction n arbitrary: s)
  case 0
  then show ?case by (cases s) (simp add: fetch_settled_def remove_nth_def Let_def)
next
  case (Suc n)
  define s2 where "s2 = s\<lparr>maxRetries := maxRetries s - 1,
             log := log s @ [Scheduled (retryDelay cfg) r, Retry r, Fetch r]\<rparr>"
  have r: "step cfg (TimerFired 0) (step cfg (Settled 0 Failed) s) = s2"
    unfolding s2_def using assms Suc.prems by (intro chain_round) simp_all
  have "run cfg (concat (replicate n [Settled 0 Failed, TimerFired 0]) @ [Settled 0 Failed]) s2 =
       s2\<lparr>inflight := [], maxRetries := 0,
         log := log s2 @ concat (replicate n [Scheduled (retryDelay cfg) r, Retry r, Fetch r])\<rparr>"
    using Suc.prems by (intro Suc.IH) (simp_all add: s2_def)
  then show ?case using r by (simp add: s2_def)
qed

lemma retry_chain_delay:
  "(Scheduled d r \<in> set (log (run cfg evs (init cfg))) \<longrightarrow> d = retryDelay cfg) \<and>
   (pipeline_ready cfg \<and> options_maxRetries cfg = int n \<longrightarrow>
      run cfg (failing_chain e n) (init cfg) =
        (init cfg)\<lparr>maxRetries := 0,
          log := Fetch (EventData e, False) #
                 concat (replicate n [Scheduled (retryDelay cfg) (EventData e, False),
                                      Retry (EventData e, False), Fetch (EventData e, False)])\<rparr>)"
proof (rule conjI)
  have "delays_fixed cfg (run cfg evs (init cfg))"
    by (intro run_delays) (simp add: delays_fixed_def init_def)
  then show "Scheduled d r \<in> set (log (run cfg evs (init cfg))) \<longrightarrow> d = retryDelay cfg"
    by (auto simp: delays_fixed_def list_all_iff)
  show "pipeline_ready cfg \<and> options_maxRetries cfg = int n \<longrightarrow>
      run cfg (failing_chain e n) (init cfg) =
        (init cfg)\<lparr>maxRetries := 0,
          log := Fetch (EventData e, False) #
                 concat (replicate n [Scheduled (retryDelay cfg) (EventData e, False),
                                      Retry (EventData e, False), Fetch (EventData e, False)])\<rparr>"
  proof (rule impI)
    assume a: "pipeline_ready cfg \<and> options_maxRetries cfg = int n"
    define s1 where "s1 = step cfg (TrackEvent e) (init cfg)"
    have s1: "s1 = (init cfg)\<lparr>inflight := [(EventData e, False)], log := [Fetch (EventData e, False)]\<rparr>"
      using a by (simp add: s1_def trackEvent_def sendToBackend_def pipeline_ready_def init_def)
    have t: "run cfg (concat (replicate n [Settled 0 Failed, TimerFired 0]) @ [Settled 0 Failed]) s1 =
       s1\<lparr>inflight := [], maxRetries := 0,
         log := log s1 @ concat (replicate n [Scheduled (retryDelay cfg) (EventData e, False),
                                      Retry (EventData e, False), Fetch (EventData e, False)])\<rparr>"
      using a by (intro chain_tail) (simp_all add: s1 init_def)
    have "run cfg (failing_chain e n) (init cfg) =
        run cfg (concat (replicate n [Settled 0 Failed, TimerFired 0]) @ [Settled 0 Failed]) s1"
      by (simp add: failing_chain_def s1_def)
    also note t
    also have "s1\<lparr>inflight := [], maxRetries := 0,
         log := log s1 @ concat (replicate n [Scheduled (retryDelay cfg) (EventData e, False),
                                      Retry (EventData e, False), Fetch (EventData e, False)])\<rparr> =
        (init cfg)\<lparr>maxRetries := 0,
          log := Fetch (EventData e, False) #
                 concat (replicate n [Scheduled (retryDelay cfg) (EventData e, False),
                                      Retry (EventData e, False), Fetch (EventData e, False)])\<rparr>"
      by (simp add: s1 init_def)
    finally show "run cfg (failing_chain e n) (init cfg) =
        (init cfg)\<lparr>maxRetries := 0,
          log := Fetch (EventData e, False) #
                 concat (replicate n [Scheduled (retryDelay cfg) (EventData e, False),
                                      Retry (EventData e, False), Fetch (EventData e, False)])\<rparr>" .
  qed
qed

lemma default_ready: "pipeline_ready default_config"
  by (simp add: pipeline_ready_def default_config_def truthy_def template_def backends_def)

lemma default_chain:
  "run default_config (failing_chain ''view'' 3) (init default_config) =
     \<lparr>recordId = None, clicks = 0, maxRetries = 0, inflight = [], timers = [],
      log = [Fetch (EventData ''view'', False),
             Scheduled 1000 (EventData ''view'', False), Retry (EventData ''view'', False),
             Fetch (EventData ''view'', False),
             Scheduled 1000 (EventData ''view'', False), Retry (EventData ''view'', False),
             Fetch (EventData ''view'', False),
             Scheduled 1000 (EventData ''view'', False), Retry (EventData ''view'', False),
             Fetch (EventData ''view'', False)]\<rparr>"
  by (simp add: failing_chain_def tracker_eval default_config_def numeral_3_eq_3)

lemma failed_sets_timer:
  "i < length (inflight s) \<and> 0 < maxRetries s \<longrightarrow>
     fetch_settled cfg i Failed s =
       s\<lparr>inflight := remove_nth i (inflight s),
         timers := timers s @ [(retryDelay cfg, inflight s ! i)],
         log := log s @ [Scheduled (retryDelay cfg) (inflight s ! i)]\<rparr>"
  by (cases s) (simp add: fetch_settled_def Let_def)

lemma failed_stops:
  "i < length (inflight s) \<and> maxRetries s \<le> 0 \<longrightarrow>
     fetch_settled cfg i Failed s = s\<lparr>inflight := remove_nth i (inflight s)\<rparr>"
  by (cases s) (simp add: fetch_settled_def Let_def)

lemma timer_resends:
  "i < length (timers s) \<and> pipeline_ready cfg \<longrightarrow>
     timer_fired cfg i s =
       s\<lparr>timers := remove_nth i (timers s), maxRetries := maxRetries s - 1,
         inflight := inflight s @ [snd (timers s ! i)],
         log := log s @ [Retry (snd (timers s ! i)), Fetch (snd (timers s ! i))]\<rparr>"
  by (cases s) (simp add: timer_fired_def sendToBackend_def pipeline_ready_def Let_def)

text \<open>
  C3, as the code has it. A request of any kind that fails while the counter
  \<open>maxRetries\<close> is positive sets a retry timer with the configured \<open>retryDelay\<close>, and the
  timer, when it runs, takes one from the counter and sends the request again; a request
  that fails while the counter is not positive sets nothing and throws nothing. Every
  retry timer of a page session is set with that same \<open>retryDelay\<close>, whatever the
  attempt. A request that fails every time, alone in a session with \<open>n\<close> configured
  retries, is sent once and again after each of exactly \<open>n\<close> timers; then nothing is
  pending and the counter is at zero.
\<close>

theorem retry_fixed_delay:
  "(Scheduled d r \<in> set (log (run cfg evs (init cfg))) \<longrightarrow> d = retryDelay cfg) \<and>
   (pipeline_ready cfg \<and> options_maxRetries cfg = int n \<longrightarrow>
      run cfg (failing_chain e n) (init cfg) =
        (init cfg)\<lparr>maxRetries := 0,
          log := Fetch (EventData e, False) #
                 concat (replicate n [Scheduled (retryDelay cfg) (EventData e, False),
                                      Retry (EventData e, False), Fetch (EventData e, False)])\<rparr>) \<and>
   (i < length (inflight s) \<and> 0 < maxRetries s \<longrightarrow>
      fetch_settled cfg i Failed s =
        s\<lparr>inflight := remove_nth i (inflight s),
          timers := timers s @ [(retryDelay cfg, inflight s ! i)],
          log := log s @ [Scheduled (retryDelay cfg) (inflight s ! i)]\<rparr>) \<and>
   (j < length (timers s) \<and> pipeline_ready cfg \<longrightarrow>
      timer_fired cfg j s =
        s\<lparr>timers := remove_nth j (timers s), maxRetries := maxRetries s - 1,
          inflight := inflight s @ [snd (timers s ! j)],
          log := log s @ [Retry (snd (timers s ! j)), Fetch (snd (timers s ! j))]\<rparr>) \<and>
   (i < length (inflight s) \<and> maxRetries s \<le> 0 \<longrightarrow>
      fetch_settled cfg i Failed s = s\<lparr>inflight := remove_nth i (inflight s)\<rparr>)"
  using retry_chain_delay [of d r cfg evs n e] failed_sets_timer [of i s cfg]
    timer_resends [of j s cfg] failed_stops [of i s cfg]
  by (elim conjE) (intro conjI, assumption+)

lemma after_view_sent_reached: "run default_config [PageLoad] (init default_config) = after_view_sent"
  by (simp add: tracker_eval default_config_def after_view_sent_def)

text \<open>
  The shipped options: a lone failing request; the page view failing once and its timer
  running; a registration update failing with the counter at zero.
\<close>

theorem retry_fixed_delay_witness:
  "pipeline_ready default_config \<and> options_maxRetries default_config = int 3 \<and>
   Scheduled 1000 (EventData ''view'', False)
     \<in> set (log (run default_config (failing_chain ''view'' 3) (init default_config))) \<and>
   (1000::int) = retryDelay default_config \<and>
   run default_config (failing_chain ''view'' 3) (init default_config) =
     (init default_config)\<lparr>maxRetries := 0,
        log := Fetch (EventData ''view'', False) #
               concat (replicate 3 [Scheduled (retryDelay default_config) (EventData ''view'', False),
                                    Retry (EventData ''view'', False),
                                    Fetch (EventData ''view'', False)])\<rparr> \<and>
   0 < length (inflight after_view_sent) \<and> 0 < maxRetries after_view_sent \<and>
   fetch_settled default_config 0 Failed after_view_sent = after_view_failed \<and>
   0 < length (timers after_view_failed) \<and>
   timer_fired default_config 0 after_view_failed =
     after_view_sent\<lparr>maxRetries := 2,
       log := [Fetch (PageViewData, False), Scheduled 1000 (PageViewData, False),
               Retry (PageViewData, False), Fetch (PageViewData, False)]\<rparr> \<and>
   0 < length (inflight after_exhaustion) \<and> maxRetries after_exhaustion \<le> 0 \<and>
   fetch_settled default_config 0 Failed after_exhaustion = after_exhaustion\<lparr>inflight := []\<rparr>"
proof -
  have m: "options_maxRetries default_config = int 3 \<and> retryDelay default_config = 1000"
    by (simp add: default_config_def)
  have s: "Scheduled 1000 (EventData ''view'', False)
     \<in> set (log (run default_config (failing_chain ''view'' 3) (init default_config)))"
    by (simp add: default_chain)
  show ?thesis
    using retry_fixed_delay [where d = 1000 and r = "(EventData ''view'', False)"
        and cfg = default_config and evs = "failing_chain ''view'' 3" and n = 3 and e = "''view''"
        and i = 0 and j = 0 and s = after_view_sent]
      retry_fixed_delay [where d = 1000 and r = "(EventData ''view'', False)"
        and cfg = default_config and evs = "failing_chain ''view'' 3" and n = 3 and e = "''view''"
        and i = 0 and j = 0 and s = after_view_failed]
      retry_fixed_delay [where d = 1000 and r = "(EventData ''view'', False)"
        and cfg = default_config and evs = "failing_chain ''view'' 3" and n = 3 and e = "''view''"
        and i = 0 and j = 0 and s = after_exhaustion]
      default_ready m s
    by (simp add: after_view_sent_def after_view_failed_def after_exhaustion_def remove_nth_def)
qed

text \<open>
  C3 as stated fails: with the shipped options the three retries of a failing request are
  set one second apart each, not one, two and four seconds.
\<close>

theorem retry_backoff_counterexample:
  "scheduled_delays (log (run default_config (failing_chain ''view'' 3) (init default_config))) =
     [1000, 1000, 1000] \<and>
   scheduled_delays (log (run default_config (failing_chain ''view'' 3) (init default_config))) \<noteq>
     doubling_delays 1000 3"
  by (simp add: default_chain scheduled_delays_def doubling_delays_def upt_rec)

text \<open>
  C9 as stated fails: four requests that fail together each find the counter at three and
  each set a timer; four retries run, and the counter ends at minus one.
\<close>

theorem shared_retry_counter_counterexample:
  "options_maxRetries default_config = 3 \<and>
   retries (run default_config burst (init default_config)) = 4 \<and>
   maxRetries (run default_config burst (init default_config)) = - 1"
  by (simp add: burst_def retries_def tracker_eval default_config_def)

lemma serial_chain: "serial default_config (failing_chain ''view'' 3) (init default_config)"
  by (simp add: failing_chain_def outstanding_def tracker_eval default_config_def numeral_3_eq_3)

theorem shared_retry_counter_witness:
  "0 \<le> options_maxRetries default_config \<and>
   serial default_config (failing_chain ''view'' 3) (init default_config) \<and>
   int (retries (run default_config (failing_chain ''view'' 3) (init default_config))) \<le> 3 \<and>
   maxRetries (run default_config (failing_chain ''view'' 3) (init default_config)) \<le> 0 \<and>
   timers (run default_config (failing_chain ''view'' 3) (init default_config)) = [] \<and>
   retries (run default_config [TrackEvent ''again'', Settled 0 Failed, TimerFired 0]
              (run default_config (failing_chain ''view'' 3) (init default_config))) =
     retries (run default_config (failing_chain ''view'' 3) (init default_config))"
proof -
  have z: "maxRetries (run default_config (failing_chain ''view'' 3) (init default_config)) \<le> 0 \<and>
      timers (run default_config (failing_chain ''view'' 3) (init default_config)) = []"
    by (simp add: default_chain)
  have m: "0 \<le> options_maxRetries default_config \<and> options_maxRetries default_config = 3"
    by (simp add: default_config_def)
  show ?thesis
    using shared_retry_counter [where cfg = default_config and evs = "failing_chain ''view'' 3"
        and s = "init default_config" and i = 0]
      shared_retry_counter [where cfg = default_config
        and evs = "[TrackEvent ''again'', Settled 0 Failed, TimerFired 0]"
        and s = "run default_config (failing_chain ''view'' 3) (init default_config)" and i = 0]
      z m serial_chain
    by simp
qed

end
